theory Spec2Isabelle
  imports Main "HOL-Library.AList"
begin

section \<open>Text buffer interface\<close>

text \<open>
  A cursor of the editor is a pair of a line and a column; both are signed, the scan in
  \<open>matchingParenthesisPosition\<close> moves a cursor to column \<open>-1\<close> and to line \<open>-1\<close>
  before it notices that it left the text.
\<close>

record Cursor =
  line :: int
  column :: int

record Range =
  range_start :: Cursor
  range_end :: Cursor

definition Cursor_isValid :: "Cursor \<Rightarrow> bool" where
  "Cursor_isValid c = (0 \<le> line c \<and> 0 \<le> column c)"

definition Range_isValid :: "Range \<Rightarrow> bool" where
  "Range_isValid r = (Cursor_isValid (range_start r) \<and> Cursor_isValid (range_end r))"

text \<open>
  The document is the list of its lines. \<open>document.character(position)\<close> yields the
  "no character" sentinel (here \<open>None\<close>) outside of the text, \<open>document.lineLength\<close>
  yields \<open>-1\<close> for a line that does not exist and \<open>document.line\<close> the empty string.
\<close>

type_synonym document = "string list"

definition document_line :: "document \<Rightarrow> int \<Rightarrow> string" where
  "document_line doc n = (if 0 \<le> n \<and> n < int (length doc) then doc ! nat n else [])"

definition document_lineLength :: "document \<Rightarrow> int \<Rightarrow> int" where
  "document_lineLength doc n =
     (if 0 \<le> n \<and> n < int (length doc) then int (length (doc ! nat n)) else - 1)"

definition document_character :: "document \<Rightarrow> Cursor \<Rightarrow> char option" where
  "document_character doc p =
     (if 0 \<le> line p \<and> line p < int (length doc)
          \<and> 0 \<le> column p \<and> column p < int (length (doc ! nat (line p)))
      then Some (doc ! nat (line p) ! nat (column p)) else None)"

section \<open>Delimiter matcher\<close>

datatype parse_reason = EndOfFile | EndOfLineInQuote char

abbreviation dquote :: char where "dquote \<equiv> CHR 0x22"
abbreviation squote :: char where "squote \<equiv> CHR 0x27"

definition closing_of :: "char \<Rightarrow> char" where
  "closing_of opening = (if opening = CHR ''('' then CHR '')'' else CHR ''('')"

definition delta_of :: "char \<Rightarrow> int" where
  "delta_of opening = (if opening = CHR ''('' then 1 else - 1)"

text \<open>
  The first half of the loop body: the character under the cursor updates the nesting
  level and the quote state. The result says whether the loop breaks here.
\<close>

definition scan_character ::
  "char \<Rightarrow> char option \<Rightarrow> int \<Rightarrow> char option \<Rightarrow> bool \<times> int \<times> char option" where
  "scan_character opening character level state =
     (if state \<in> {Some dquote, Some squote} then
        (if character = state then (False, level, None) else (False, level, state))
      else if character = Some opening then (False, level + 1, state)
      else if character = Some (closing_of opening) then (level - 1 = 0, level - 1, state)
      else if character \<in> {Some dquote, Some squote} then (False, level, character)
      else (False, level, state))"

text \<open>
  The second half of the loop body: one step in the direction of the scan, wrapping to the
  adjacent line where the line ends, and the two \<open>raise ParseError\<close>.
\<close>

definition advance :: "document \<Rightarrow> int \<Rightarrow> Cursor \<Rightarrow> char option \<Rightarrow> parse_reason + Cursor" where
  "advance doc delta position state =
     (let p1 = position\<lparr>column := column position + delta\<rparr> in
      if document_character doc p1 = None then
        (let p2 = \<lparr>line = line p1 + delta, column = 0\<rparr>;
             p3 = (if delta = - 1
                   then p2\<lparr>column := document_lineLength doc (line p2) - 1\<rparr> else p2)
         in if document_character doc p3 = None then Inl EndOfFile
            else if state \<in> {Some dquote, Some squote} then Inl (EndOfLineInQuote (the state))
            else Inr p3)
      else Inr p1)"

function matchingParenthesisPosition_loop ::
  "document \<Rightarrow> char \<Rightarrow> Cursor \<Rightarrow> int \<Rightarrow> char option \<Rightarrow> parse_reason + Cursor" where
  "matchingParenthesisPosition_loop doc opening position level state =
     (case scan_character opening (document_character doc position) level state of
        (found, level', state') \<Rightarrow>
          if found then
            Inr (if closing_of opening = CHR '')''
                 then position\<lparr>column := column position + delta_of opening\<rparr>
                 else position)
          else
            (case advance doc (delta_of opening) position state' of
               Inl e \<Rightarrow> Inl e
             | Inr position' \<Rightarrow>
                 matchingParenthesisPosition_loop doc opening position' level' state'))"
  by pat_completeness auto


lemma advance_forward_Inr:
  assumes "advance doc 1 p s = Inr p'"
  shows "(line p' = line p \<and> column p' = column p + 1
            \<and> column p' < document_lineLength doc (line p)
            \<and> 0 \<le> line p \<and> line p < int (length doc))
       \<or> (line p' = line p + 1 \<and> column p' = 0 \<and> line p' < int (length doc) \<and> 0 \<le> line p')"
  using assms
  by (auto simp: advance_def Let_def document_character_def document_lineLength_def
           split: if_splits)

lemma advance_backward_Inr:
  assumes "advance doc (- 1) p s = Inr p'"
  shows "(line p' = line p \<and> column p' = column p - 1 \<and> 0 \<le> column p')
       \<or> (line p' = line p - 1 \<and> 0 \<le> line p')"
  using assms
  by (auto simp: advance_def Let_def document_character_def document_lineLength_def
           split: if_splits)

text \<open>
  The loop ends: a forward scan moves down the text, a backward scan up, and a step that
  does not raise arrives at a character of the text.
\<close>

termination matchingParenthesisPosition_loop
  apply (relation "measures [
    (\<lambda>(doc, opn, p, l, s).
        if opn = CHR ''('' then nat (int (length doc) - line p) else nat (line p + 1)),
    (\<lambda>(doc, opn, p, l, s).
        if opn = CHR ''('' then nat (document_lineLength doc (line p) - column p)
        else nat (column p + 1))]")
   apply simp
  apply (auto simp: delta_of_def dest!: advance_forward_Inr advance_backward_Inr
              split: if_splits)
  done

declare matchingParenthesisPosition_loop.simps [simp del]

definition matchingParenthesisPosition :: "document \<Rightarrow> Cursor \<Rightarrow> char \<Rightarrow> parse_reason + Cursor" where
  "matchingParenthesisPosition doc position opening =
     matchingParenthesisPosition_loop doc opening position 0 None"

section \<open>Cursor locator\<close>

datatype pyerror =
    ParseError parse_reason
  | IndexError
  | ValueError
  | AssertionError
  | LoadError string
  | BaseException string

text \<open>Python's \<open>s[i]\<close>: a negative index counts from the end, out of range raises.\<close>

definition py_index :: "string \<Rightarrow> int \<Rightarrow> pyerror + char" where
  "py_index s i =
     (let n = int (length s); j = (if i < 0 then n + i else i)
      in if 0 \<le> j \<and> j < n then Inr (s ! nat j) else Inl IndexError)"

text \<open>
  Modelled from the spec: \<open>common.getBoundTextRangeSL\<close> and
  \<open>common.IDENTIFIER_BOUNDARIES\<close> of \<open>libkatepate\<close> are called by the locator but are
  not among the source files. The spec gives the word lookup as the maximal contiguous run
  of identifier characters (letters, digits, underscore) touching the cursor, in both
  directions, on the cursor's line only, and an invalid range if no identifier character
  touches the cursor.
\<close>

definition is_identifier_char :: "char \<Rightarrow> bool" where
  "is_identifier_char c =
     (c \<in> set ''abcdefghijklmnopqrstuvwxyzABCDEFGHIJKLMNOPQRSTUVWXYZ0123456789_'')"

definition getBoundTextRangeSL :: "Cursor \<Rightarrow> document \<Rightarrow> Range" where
  "getBoundTextRangeSL pos doc =
     (let l = document_line doc (line pos);
          c = nat (column pos);
          left = takeWhile is_identifier_char (rev (take c l));
          right = takeWhile is_identifier_char (drop c l)
      in if left = [] \<and> right = []
         then \<lparr>range_start = \<lparr>line = - 1, column = - 1\<rparr>,
               range_end = \<lparr>line = - 1, column = - 1\<rparr>\<rparr>
         else \<lparr>range_start = \<lparr>line = line pos, column = column pos - int (length left)\<rparr>,
               range_end = \<lparr>line = line pos, column = column pos + int (length right)\<rparr>\<rparr>)"

text \<open>
  The four lines that both special cases of the locator share: match backwards from the
  closing parenthesis, make the range end one past it and re-seat the cursor at the
  opening parenthesis.
\<close>

definition argument_range_before ::
  "document \<Rightarrow> Cursor \<Rightarrow> pyerror + (Range option \<times> Cursor)" where
  "argument_range_before doc argument_end =
     (case matchingParenthesisPosition doc argument_end CHR '')'' of
        Inl r \<Rightarrow> Inl (ParseError r)
      | Inr argument_start \<Rightarrow>
          Inr (Some \<lparr>range_start = argument_start,
                     range_end = argument_end\<lparr>column := column argument_end + 1\<rparr>\<rparr>,
               argument_start))"

definition special_cases :: "document \<Rightarrow> Cursor \<Rightarrow> pyerror + (Range option \<times> Cursor)" where
  "special_cases doc cursor =
     (let l = document_line doc (line cursor) in
      if column cursor > 0 then
        (case (if column cursor < int (length l) \<and> py_index l (column cursor) = Inr CHR '')''
               then argument_range_before doc \<lparr>line = line cursor, column = column cursor\<rparr>
               else Inr (None, cursor)) of
           Inl e \<Rightarrow> Inl e
         | Inr (argument_range, cursor1) \<Rightarrow>
             (case py_index l (column cursor1 - 1) of
                Inl e \<Rightarrow> Inl e
              | Inr c \<Rightarrow>
                  if c = CHR '')''
                  then argument_range_before doc
                         \<lparr>line = line cursor1, column = column cursor1 - 1\<rparr>
                  else Inr (argument_range, cursor1)))
      else Inr (None, cursor))"

definition wordAndArgumentAtCursorRanges ::
  "document \<Rightarrow> Cursor \<Rightarrow> pyerror + (Range \<times> Range option)" where
  "wordAndArgumentAtCursorRanges doc cursor0 =
     (let l = document_line doc (line cursor0) in
      case special_cases doc cursor0 of
        Inl e \<Rightarrow> Inl e
      | Inr (argument_range, cursor) \<Rightarrow>
          (let word_range = getBoundTextRangeSL cursor doc;
               e = column (range_end word_range)
           in if argument_range = None \<and> Range_isValid word_range then
                (if e < int (length l) \<and> py_index l e = Inr CHR ''(''
                 then (case matchingParenthesisPosition doc \<lparr>line = line cursor, column = e\<rparr>
                              CHR ''('' of
                         Inl r \<Rightarrow> Inl (ParseError r)
                       | Inr argument_end \<Rightarrow>
                           Inr (word_range,
                                Some \<lparr>range_start = \<lparr>line = line cursor, column = e\<rparr>,
                                      range_end = argument_end\<rparr>))
                 else Inr (word_range, None))
              else Inr (word_range, argument_range)))"

section \<open>Python strings\<close>

text \<open>
  A string is the list of its characters; the characters of the model are the code points
  below 256. \<open>str.split\<close> with a one-character separator, \<open>str.strip\<close> without
  argument, \<open>str.startswith\<close>, \<open>str.find\<close> and the slice \<open>s[1:-1]\<close>.
\<close>

fun py_split :: "char \<Rightarrow> string \<Rightarrow> string list" where
  "py_split sep [] = [[]]"
| "py_split sep (c # cs) =
     (if c = sep then [] # py_split sep cs
      else (case py_split sep cs of
              [] \<Rightarrow> [[c]]
            | piece # pieces \<Rightarrow> (c # piece) # pieces))"

definition py_isspace :: "char \<Rightarrow> bool" where
  "py_isspace c =
     (c \<in> {CHR 0x09, CHR 0x0A, CHR 0x0B, CHR 0x0C, CHR 0x0D,
            CHR 0x1C, CHR 0x1D, CHR 0x1E, CHR 0x1F, CHR 0x20, CHR 0x85, CHR 0xA0})"

definition py_strip :: "string \<Rightarrow> string" where
  "py_strip s = rev (dropWhile py_isspace (rev (dropWhile py_isspace s)))"

definition py_startswith :: "string \<Rightarrow> string \<Rightarrow> bool" where
  "py_startswith s pre = (take (length pre) s = pre)"

fun py_find_from :: "string \<Rightarrow> string \<Rightarrow> int \<Rightarrow> int" where
  "py_find_from [] sub i = (if sub = [] then i else - 1)"
| "py_find_from (c # cs) sub i =
     (if py_startswith (c # cs) sub then i else py_find_from cs sub (i + 1))"

definition py_find :: "string \<Rightarrow> string \<Rightarrow> int" where
  "py_find s sub = py_find_from s sub 0"

definition py_slice_1_minus1 :: "string \<Rightarrow> string" where
  "py_slice_1_minus1 s = butlast (tl s)"

section \<open>Expansion registry\<close>

text \<open>
  What an expansion callable returns, and what calling it does: it returns a value, raises
  an exception that \<open>except Exception\<close> catches (carried as the text that the handler
  makes of the traceback), or raises one that it does not catch.
\<close>

datatype pyvalue = Text string | Mapping "(string \<times> string) list" | OtherValue

datatype call_result = Returns pyvalue | RaisesException string | RaisesBaseException string

text \<open>
  A function object of an expansion file: its \<open>__name__\<close>, what calling it with
  positional and keyword arguments does, its \<open>template\<close> attribute if it has one, and the
  value of its \<open>use_template_iface\<close> attribute if it has one.
\<close>

record expansion_function =
  func_name :: string
  call :: "string list \<Rightarrow> (string \<times> string) list \<Rightarrow> call_result"
  template :: "string option"
  use_template_iface :: "bool option"

text \<open>
  A Python dictionary is the list of its items in insertion order; \<open>map_of\<close> looks a key
  up, \<open>AList.update\<close> is the assignment \<open>d[k] = v\<close>. The registry maps the name of an
  expansion to the pair of the function and the path of the file that defined it.
\<close>

type_synonym expansions = "(string \<times> (expansion_function \<times> string)) list"

text \<open>
  A loaded module is the list of its attribute names, in the order of \<open>dir(module)\<close>,
  each with the object that \<open>getattr\<close> returns for it.
\<close>

datatype pyobject = Function expansion_function | NotFunction

type_synonym pymodule = "(string \<times> pyobject) list"

text \<open>The messages of \<open>kate.kDebug\<close> in the registry, one constructor for each call.\<close>

datatype debug_message =
    LoadingExpansionsFrom string
  | AddingExpansion string
  | IgnoreDuplicate string string
  | FirstDefinedHere string
  | CollectingExpansionsFor string
  | GotExpansions nat

text \<open>
  The host of the plugin, outside of the source: the search directories of
  \<open>kate.applicationDirectories\<close>, \<open>os.path.exists\<close>, \<open>imp.load_source\<close> (which
  raises or returns a module), \<open>kate.findApplicationResource\<close> (\<open>None\<close> where it finds
  nothing) and the template engine: \<open>render_template basedir filename data\<close> is
  \<open>get_template\<close> and \<open>render\<close> in the environment of \<open>basedir\<close>.
\<close>

datatype render_result = Rendered string | RaisesTemplateError string | RaisesOther pyerror

record host =
  applicationDirectories :: "string \<Rightarrow> string list"
  path_exists :: "string \<Rightarrow> bool"
  load_source :: "string \<Rightarrow> string \<Rightarrow> pyerror + pymodule"
  findApplicationResource :: "string \<Rightarrow> string option"
  render_template :: "string \<Rightarrow> string \<Rightarrow> (string \<times> string) list \<Rightarrow> render_result"

definition os_path_join :: "string \<Rightarrow> string \<Rightarrow> string" where
  "os_path_join a b =
     (if b \<noteq> [] \<and> hd b = CHR ''/'' then b
      else if a = [] \<or> last a = CHR ''/'' then a @ b
      else a @ ''/'' @ b)"

definition os_path_basename :: "string \<Rightarrow> string" where
  "os_path_basename p = rev (takeWhile (\<lambda>c. c \<noteq> CHR ''/'') (rev p))"

text \<open>The body of the loop of \<open>loadExpansionsFromFile\<close> over \<open>dir(module)\<close>.\<close>

definition loadExpansionsFromFile_step ::
  "string \<Rightarrow> string \<times> pyobject \<Rightarrow> expansions \<times> debug_message list
     \<Rightarrow> expansions \<times> debug_message list" where
  "loadExpansionsFromFile_step path item acc =
     (case (item, acc) of
        ((name, obj), (expansions, log)) \<Rightarrow>
          (case obj of
             Function f \<Rightarrow>
               if \<not> py_startswith name ''__''
               then (AList.update (func_name f) (f, path) expansions,
                     log @ [AddingExpansion (func_name f)])
               else (expansions, log)
           | NotFunction \<Rightarrow> (expansions, log)))"

definition loadExpansionsFromFile ::
  "host \<Rightarrow> string \<Rightarrow> pyerror + (expansions \<times> debug_message list)" where
  "loadExpansionsFromFile h path =
     (let name = hd (py_split CHR ''.'' (os_path_basename path)) in
      case load_source h name path of
        Inl e \<Rightarrow> Inl e
      | Inr module \<Rightarrow>
          Inr (fold (loadExpansionsFromFile_step path) module ([], [LoadingExpansionsFrom path])))"

definition mergeExpansions_step ::
  "string \<times> (expansion_function \<times> string) \<Rightarrow> expansions \<times> debug_message list
     \<Rightarrow> expansions \<times> debug_message list" where
  "mergeExpansions_step item acc =
     (case (item, acc) of
        ((exp_key, exp_tuple), (result, log)) \<Rightarrow>
          (case map_of result exp_key of
             None \<Rightarrow> (AList.update exp_key exp_tuple result, log)
           | Some present \<Rightarrow>
               (AList.update exp_key present result,
                log @ [IgnoreDuplicate exp_key (snd exp_tuple),
                       FirstDefinedHere (snd present)])))"

definition mergeExpansions ::
  "expansions \<Rightarrow> expansions \<Rightarrow> expansions \<times> debug_message list" where
  "mergeExpansions left right = fold mergeExpansions_step right (left, [])"

definition mime_filename :: "string \<Rightarrow> string" where
  "mime_filename mime = map (\<lambda>c. if c = CHR ''/'' then CHR ''_'' else c) mime @ ''.expand''"

text \<open>
  The loop of \<open>_getExpansionsFor\<close> over the search directories. A call that raises
  gives the error alone: the messages logged before it are not kept.
\<close>

fun getExpansionsFor_directories ::
  "host \<Rightarrow> string \<Rightarrow> string list \<Rightarrow> expansions \<times> debug_message list
     \<Rightarrow> pyerror + (expansions \<times> debug_message list)" where
  "getExpansionsFor_directories h name [] acc = Inr acc"
| "getExpansionsFor_directories h name (directory # directories) (expansions, log) =
     (if path_exists h (os_path_join directory name) then
        (case loadExpansionsFromFile h (os_path_join directory name) of
           Inl e \<Rightarrow> Inl e
         | Inr (loaded, log1) \<Rightarrow>
             (case mergeExpansions expansions loaded of
                (merged, log2) \<Rightarrow>
                  getExpansionsFor_directories h name directories (merged, log @ log1 @ log2)))
      else getExpansionsFor_directories h name directories (expansions, log))"

text \<open>\<open>_getExpansionsFor\<close> of the source; the directories are those of \<open>'expand'\<close>.\<close>

definition private_getExpansionsFor ::
  "host \<Rightarrow> string \<Rightarrow> pyerror + (expansions \<times> debug_message list)" where
  "private_getExpansionsFor h mime =
     getExpansionsFor_directories h (mime_filename mime) (applicationDirectories h ''expand'')
       ([], [])"

text \<open>
  \<open>getExpansionsFor\<close> is memoized by \<open>functools.lru_cache\<close>; for a fixed host the
  cached value is the computed one, and the model computes it.
\<close>

definition getExpansionsFor ::
  "host \<Rightarrow> string \<Rightarrow> pyerror + (expansions \<times> debug_message list)" where
  "getExpansionsFor h mime =
     (case private_getExpansionsFor h mime of
        Inl e \<Rightarrow> Inl e
      | Inr (specific, log1) \<Rightarrow>
          (case private_getExpansionsFor h ''all'' of
             Inl e \<Rightarrow> Inl e
           | Inr (wildcard, log2) \<Rightarrow>
               (case mergeExpansions specific wildcard of
                  (result, log3) \<Rightarrow>
                    Inr (result,
                         [CollectingExpansionsFor mime] @ log1 @ log2 @ log3
                           @ [GotExpansions (length result)]))))"

section \<open>Invocation and rendering pipeline\<close>

text \<open>
  \<open>document.text(range)\<close> of the editor: the characters from the start of the range to
  its end, the lines joined by a newline; the empty string for an invalid range.
\<close>

definition document_text :: "document \<Rightarrow> Range \<Rightarrow> string" where
  "document_text doc r =
     (let s = range_start r; e = range_end r in
      if \<not> Range_isValid r \<or> line e < line s \<or> (line e = line s \<and> column e < column s)
      then []
      else if line s = line e
      then take (nat (column e - column s)) (drop (nat (column s)) (document_line doc (line s)))
      else drop (nat (column s)) (document_line doc (line s))
           @ concat (map (\<lambda>l. CHR 0x0A # l)
                         (take (nat (line e - line s) - 1) (drop (nat (line s) + 1) doc)))
           @ CHR 0x0A # take (nat (column e)) (document_line doc (line e)))"

text \<open>
  The arguments of the call, from the text of the argument range: lines 278 to 286 of
  \<open>expandAtCursor\<close>. \<open>key, value = [...]\<close> raises ValueError unless the item has
  exactly one \<open>=\<close>.
\<close>

definition preArgs :: "string \<Rightarrow> string list" where
  "preArgs text =
     map py_strip
       (filter (\<lambda>arg. py_strip arg \<noteq> []) (py_split CHR '','' (py_slice_1_minus1 text)))"

fun collect_arguments ::
  "string list \<Rightarrow> string list \<times> (string \<times> string) list
     \<Rightarrow> pyerror + (string list \<times> (string \<times> string) list)" where
  "collect_arguments [] acc = Inr acc"
| "collect_arguments (arg # args) (arguments, namedArgs) =
     (if CHR ''='' \<in> set arg then
        (case map py_strip (py_split CHR ''='' arg) of
           [key, value] \<Rightarrow> collect_arguments args (arguments, AList.update key value namedArgs)
         | _ \<Rightarrow> Inl ValueError)
      else collect_arguments args (arguments @ [arg], namedArgs))"

definition parse_arguments :: "string \<Rightarrow> pyerror + (string list \<times> (string \<times> string) list)" where
  "parse_arguments text = collect_arguments (preArgs text) ([], [])"

text \<open>
  The active document and view: the lines of the document, the cursor, the media type,
  and whether \<open>view.templateInterface2()\<close> is an interface (not \<open>None\<close>).
\<close>

record editor =
  document :: document
  cursorPosition :: Cursor
  mimeType :: string
  templateInterface2 :: bool

text \<open>
  What \<open>expandAtCursor\<close> does to the editor, in order: the popups of \<open>kate.ui.popup\<close>
  (title, text, icon), the scope of \<open>kate.makeAtomicUndo\<close> and the changes of the buffer.
  The debug log is not part of the trace.
\<close>

datatype popup_text =
    ParseErrorText parse_reason
  | ExpansionNotFoundText string
  | ExpandFailureText string
  | TemplateFileNotFoundText string
  | TemplateFileErrorText string string

datatype effect =
    Popup string popup_text string
  | BeginAtomicUndo
  | EndAtomicUndo
  | RemoveText Range
  | InsertText Cursor pyvalue
  | InsertTemplateText Cursor pyvalue

datatype outcome = Returned | Raised pyerror

text \<open>Lines 373 to 393: the edit, in the scope of one atomic undo.\<close>

definition apply_expansion ::
  "editor \<Rightarrow> expansion_function \<Rightarrow> Range \<Rightarrow> Range option \<Rightarrow> pyvalue
     \<Rightarrow> outcome \<times> effect list" where
  "apply_expansion ed func word_range argument_range replacement =
     (Returned,
      [BeginAtomicUndo]
      @ (case argument_range of None \<Rightarrow> [] | Some r \<Rightarrow> [RemoveText r])
      @ [RemoveText word_range]
      @ (if use_template_iface func = Some True \<and> templateInterface2 ed
         then [InsertTemplateText (range_start word_range) replacement]
         else [InsertText (range_start word_range) replacement])
      @ [EndAtomicUndo])"

definition JINJA_TEMPLATES_BASE_DIR :: string where
  "JINJA_TEMPLATES_BASE_DIR = os_path_join ''expand'' ''templates''"

text \<open>Lines 336 to 371: the template of a function that declares one, then the edit.\<close>

definition render_expansion ::
  "host \<Rightarrow> editor \<Rightarrow> expansion_function \<Rightarrow> string \<Rightarrow> Range \<Rightarrow> Range option
     \<Rightarrow> (string \<times> string) list \<Rightarrow> outcome \<times> effect list" where
  "render_expansion h ed func tmpl word_range argument_range data =
     (case findApplicationResource h (JINJA_TEMPLATES_BASE_DIR @ ''/'' @ tmpl) of
        None \<Rightarrow> (Returned, [Popup ''Error'' (TemplateFileNotFoundText tmpl) ''dialog-error''])
      | Some filename \<Rightarrow>
          if filename = [] then
            (Returned, [Popup ''Error'' (TemplateFileNotFoundText tmpl) ''dialog-error''])
          else
            (let base_dir_pos = py_find filename JINJA_TEMPLATES_BASE_DIR in
             if base_dir_pos = - 1 then (Raised AssertionError, [])
             else
               (let n = nat base_dir_pos + length JINJA_TEMPLATES_BASE_DIR;
                    basedir = take n filename;
                    relative = drop (n + 1) filename
                in case render_template h basedir relative data of
                     RaisesTemplateError message \<Rightarrow>
                       (Returned, [Popup ''Error'' (TemplateFileErrorText tmpl message)
                                     ''dialog-error''])
                   | RaisesOther e \<Rightarrow> (Raised e, [])
                   | Rendered text \<Rightarrow>
                       apply_expansion ed func word_range argument_range (Text text))))"

text \<open>Lines 333 to 335: the kind of the function and the assertion on what it returned.\<close>

definition finish_expansion ::
  "host \<Rightarrow> editor \<Rightarrow> expansion_function \<Rightarrow> Range \<Rightarrow> Range option \<Rightarrow> pyvalue
     \<Rightarrow> outcome \<times> effect list" where
  "finish_expansion h ed func word_range argument_range replacement =
     (case template func of
        Some tmpl \<Rightarrow>
          (case replacement of
             Mapping data \<Rightarrow> render_expansion h ed func tmpl word_range argument_range data
           | _ \<Rightarrow> (Raised AssertionError, []))
      | None \<Rightarrow> apply_expansion ed func word_range argument_range replacement)"

definition expandAtCursor :: "host \<Rightarrow> editor \<Rightarrow> outcome \<times> effect list" where
  "expandAtCursor h ed =
     (case wordAndArgumentAtCursorRanges (document ed) (cursorPosition ed) of
        Inl (ParseError e) \<Rightarrow>
          (Returned, [Popup ''Parse error'' (ParseErrorText e) ''dialog-warning''])
      | Inl e \<Rightarrow> (Raised e, [])
      | Inr (word_range, argument_range) \<Rightarrow>
          (let word = document_text (document ed) word_range in
           case getExpansionsFor h (mimeType ed) of
             Inl e \<Rightarrow> (Raised e, [])
           | Inr (expansions, log) \<Rightarrow>
               (case map_of expansions word of
                  None \<Rightarrow>
                    (Returned, [Popup ''Error'' (ExpansionNotFoundText word) ''dialog-warning''])
                | Some (func, path) \<Rightarrow>
                    (case (case argument_range of
                             None \<Rightarrow> Inr ([], [])
                           | Some r \<Rightarrow> parse_arguments (document_text (document ed) r)) of
                       Inl e \<Rightarrow> (Raised e, [])
                     | Inr (arguments, namedArgs) \<Rightarrow>
                         (case (if namedArgs \<noteq> [] then call func arguments namedArgs
                                else call func arguments []) of
                            RaisesException s \<Rightarrow>
                              (Returned, [Popup ''Error'' (ExpandFailureText s) ''dialog-error''])
                          | RaisesBaseException s \<Rightarrow> (Raised (BaseException s), [])
                          | Returns replacement \<Rightarrow>
                              finish_expansion h ed func word_range argument_range
                                replacement)))))"

section \<open>Properties of the delimiter matcher\<close>

text \<open>
  C3. The claim: the matcher raises ParseError exactly when the scan runs past the last
  (or first) line of the document or a line ends inside a quoted span, and in no other
  situation. The code tells the end of the file from the failure of a second read
  (its comment: "failure again => EOF"), and the first column of an empty line fails
  that read as well. In the three-line document with an empty second line the scan from the
  opening parenthesis stops with "end of file reached", although the closing parenthesis
  is on the third line and no quote is open.
\<close>

theorem matcher_empty_line_raises_end_of_file:
  "matchingParenthesisPosition [''('', '''', '')''] \<lparr>line = 0, column = 0\<rparr> CHR ''(''
     = Inl EndOfFile
   \<and> document_character [''('', '''', '')''] \<lparr>line = 2, column = 0\<rparr> = Some CHR '')''"
  by (intro conjI; code_simp)

section \<open>Properties of the cursor locator\<close>

text \<open>
  C4. In the line \<open>xx foo(1, bar=2) yy\<close> the identifier \<open>foo\<close> is at columns 3 to 5 and
  the argument list at columns 6 to 15. For the cursor at column 3, 4, 5 or 6 (before each
  letter of \<open>foo\<close> and right after the last one) the locator returns the word range from
  column 3 to column 6 and the argument range from the opening parenthesis at column 6 to
  column 16, one past the closing parenthesis; no special case applies, and the end of the
  argument range is what the matcher returns from the parenthesis after the word.
\<close>

theorem locator_foo_example:
  "wordAndArgumentAtCursorRanges [''xx foo(1, bar=2) yy''] \<lparr>line = 0, column = 3\<rparr> =
     Inr (\<lparr>range_start = \<lparr>line = 0, column = 3\<rparr>, range_end = \<lparr>line = 0, column = 6\<rparr>\<rparr>,
          Some \<lparr>range_start = \<lparr>line = 0, column = 6\<rparr>,
                range_end = \<lparr>line = 0, column = 16\<rparr>\<rparr>)
   \<and> wordAndArgumentAtCursorRanges [''xx foo(1, bar=2) yy''] \<lparr>line = 0, column = 4\<rparr> =
     Inr (\<lparr>range_start = \<lparr>line = 0, column = 3\<rparr>, range_end = \<lparr>line = 0, column = 6\<rparr>\<rparr>,
          Some \<lparr>range_start = \<lparr>line = 0, column = 6\<rparr>,
                range_end = \<lparr>line = 0, column = 16\<rparr>\<rparr>)
   \<and> wordAndArgumentAtCursorRanges [''xx foo(1, bar=2) yy''] \<lparr>line = 0, column = 5\<rparr> =
     Inr (\<lparr>range_start = \<lparr>line = 0, column = 3\<rparr>, range_end = \<lparr>line = 0, column = 6\<rparr>\<rparr>,
          Some \<lparr>range_start = \<lparr>line = 0, column = 6\<rparr>,
                range_end = \<lparr>line = 0, column = 16\<rparr>\<rparr>)
   \<and> wordAndArgumentAtCursorRanges [''xx foo(1, bar=2) yy''] \<lparr>line = 0, column = 6\<rparr> =
     Inr (\<lparr>range_start = \<lparr>line = 0, column = 3\<rparr>, range_end = \<lparr>line = 0, column = 6\<rparr>\<rparr>,
          Some \<lparr>range_start = \<lparr>line = 0, column = 6\<rparr>,
                range_end = \<lparr>line = 0, column = 16\<rparr>\<rparr>)
   \<and> special_cases [''xx foo(1, bar=2) yy''] \<lparr>line = 0, column = 3\<rparr>
       = Inr (None, \<lparr>line = 0, column = 3\<rparr>)
   \<and> special_cases [''xx foo(1, bar=2) yy''] \<lparr>line = 0, column = 4\<rparr>
       = Inr (None, \<lparr>line = 0, column = 4\<rparr>)
   \<and> special_cases [''xx foo(1, bar=2) yy''] \<lparr>line = 0, column = 5\<rparr>
       = Inr (None, \<lparr>line = 0, column = 5\<rparr>)
   \<and> special_cases [''xx foo(1, bar=2) yy''] \<lparr>line = 0, column = 6\<rparr>
       = Inr (None, \<lparr>line = 0, column = 6\<rparr>)
   \<and> matchingParenthesisPosition [''xx foo(1, bar=2) yy''] \<lparr>line = 0, column = 6\<rparr> CHR ''(''
       = Inr \<lparr>line = 0, column = 16\<rparr>
   \<and> document_character [''xx foo(1, bar=2) yy''] \<lparr>line = 0, column = 6\<rparr> = Some CHR ''(''
   \<and> document_character [''xx foo(1, bar=2) yy''] \<lparr>line = 0, column = 15\<rparr> = Some CHR '')''"
  by (intro conjI; code_simp)

text \<open>
  C5. The claim: the two special cases of the locator exclude each other, the second
  applies only when the first did not. The code tests the second with a plain \<open>if\<close>
  after the first has re-seated the cursor, and the guard \<open>cursor.column() > 0\<close> was
  evaluated for the cursor that came in. In the line \<open>(a)\<close> with the cursor on the closing
  parenthesis (column 2) the first case applies and moves the cursor to column 0; the
  second test then reads \<open>line[-1]\<close>, Python's last character, finds the same closing
  parenthesis and matches backwards from column \<open>-1\<close>: the locator raises
  "end of file reached". The first case alone gives the argument range of \<open>(a)\<close>.
\<close>

theorem locator_both_special_cases_apply:
  "wordAndArgumentAtCursorRanges [''(a)''] \<lparr>line = 0, column = 2\<rparr> = Inl (ParseError EndOfFile)
   \<and> argument_range_before [''(a)''] \<lparr>line = 0, column = 2\<rparr>
       = Inr (Some \<lparr>range_start = \<lparr>line = 0, column = 0\<rparr>,
                    range_end = \<lparr>line = 0, column = 3\<rparr>\<rparr>, \<lparr>line = 0, column = 0\<rparr>)
   \<and> py_index ''(a)'' (0 - 1) = Inr CHR '')''"
  by (intro conjI; code_simp)

section \<open>The two directions of the matcher\<close>

text \<open>
  The quote state of the scan is \<open>None\<close> or one of the two quote characters.
\<close>

definition quote_states :: "char option set" where
  "quote_states = {None, Some dquote, Some squote}"

text \<open>
  A forward match returns the column after the closing parenthesis; \<open>unshift\<close> takes
  the result of a scan back to the parenthesis where the scan stopped.
\<close>

definition unshift :: "char \<Rightarrow> Cursor \<Rightarrow> Cursor" where
  "unshift opn q =
     (if closing_of opn = CHR '')'' then q\<lparr>column := column q - delta_of opn\<rparr> else q)"

lemma delta_of_closing:
  "opn = CHR ''('' \<or> opn = CHR '')'' \<Longrightarrow> delta_of (closing_of opn) = - delta_of opn"
  by (auto simp: closing_of_def delta_of_def)

lemma scan_character_reverse:
  assumes "opn = CHR ''('' \<or> opn = CHR '')''"
      and "scan_character opn ch l s = (f, l', s')"
      and "s \<in> quote_states"
      and "1 \<le> c + l"
  shows "scan_character (closing_of opn) ch (c + l') s' = (False, c + l, s)"
  using assms
  by (auto simp: scan_character_def closing_of_def quote_states_def split: if_splits)

lemma scan_character_invariant:
  assumes "scan_character opn ch l s = (f, l', s')"
      and "s \<in> quote_states"
  shows "s' \<in> quote_states" and "\<not> f \<Longrightarrow> 1 \<le> l \<Longrightarrow> 1 \<le> l'"
  using assms
  by (auto simp: scan_character_def quote_states_def split: if_splits)

lemma document_character_None_iff:
  "document_character doc \<lparr>line = l, column = c\<rparr> = None \<longleftrightarrow>
     \<not> (0 \<le> l \<and> l < int (length doc) \<and> 0 \<le> c \<and> c < int (length (doc ! nat l)))"
  by (simp add: document_character_def)

lemma advance_forward_reverse:
  assumes "advance doc 1 pos s = Inr pos'"
      and "document_character doc pos \<noteq> None"
  shows "advance doc (- 1) pos' s = Inr pos \<and> document_character doc pos' \<noteq> None"
proof -
  obtain l c where pos: "pos = \<lparr>line = l, column = c\<rparr>" by (cases pos) auto
  from assms(2) have v: "0 \<le> l" "l < int (length doc)" "0 \<le> c" "c < int (length (doc ! nat l))"
    by (simp_all add: pos document_character_None_iff)
  show ?thesis
  proof (cases "c + 1 < int (length (doc ! nat l))")
    case True
    with v assms(1) have "pos' = \<lparr>line = l, column = c + 1\<rparr>"
      by (simp add: advance_def Let_def pos document_character_None_iff)
    with v True show ?thesis
      by (simp add: advance_def Let_def pos document_character_None_iff)
  next
    case False
    with v assms(1) have p': "pos' = \<lparr>line = l + 1, column = 0\<rparr>"
      and nv: "l + 1 < int (length doc)" "0 < int (length (doc ! nat (l + 1)))"
      and st: "s \<notin> {Some dquote, Some squote}"
      by (auto simp: advance_def Let_def pos document_character_None_iff split: if_splits)
    from False v have c: "c = int (length (doc ! nat l)) - 1" by simp
    from v nv st show ?thesis
      by (simp add: advance_def Let_def p' pos c document_character_None_iff document_lineLength_def)
  qed
qed

lemma advance_backward_reverse:
  assumes "advance doc (- 1) pos s = Inr pos'"
      and "document_character doc pos \<noteq> None"
  shows "advance doc 1 pos' s = Inr pos \<and> document_character doc pos' \<noteq> None"
proof -
  obtain l c where pos: "pos = \<lparr>line = l, column = c\<rparr>" by (cases pos) auto
  from assms(2) have v: "0 \<le> l" "l < int (length doc)" "0 \<le> c" "c < int (length (doc ! nat l))"
    by (simp_all add: pos document_character_None_iff)
  show ?thesis
  proof (cases "0 \<le> c - 1")
    case True
    with v assms(1) have "pos' = \<lparr>line = l, column = c - 1\<rparr>"
      by (simp add: advance_def Let_def pos document_character_None_iff)
    with v True show ?thesis
      by (simp add: advance_def Let_def pos document_character_None_iff)
  next
    case False
    with v have c: "c = 0" by simp
    with v assms(1) have p': "pos' = \<lparr>line = l - 1, column = int (length (doc ! nat (l - 1))) - 1\<rparr>"
      and nv: "0 \<le> l - 1" "0 < int (length (doc ! nat (l - 1)))"
      and st: "s \<notin> {Some dquote, Some squote}"
      by (auto simp: advance_def Let_def pos document_character_None_iff document_lineLength_def
               split: if_splits)
    from v nv st show ?thesis
      by (simp add: advance_def Let_def p' pos c document_character_None_iff)
  qed
qed

lemma advance_reverse:
  assumes "d = 1 \<or> d = - 1"
      and "advance doc d pos s = Inr pos'"
      and "document_character doc pos \<noteq> None"
  shows "advance doc (- d) pos' s = Inr pos" and "document_character doc pos' \<noteq> None"
  using assms advance_forward_reverse[of doc pos s pos'] advance_backward_reverse[of doc pos s pos']
  by auto


lemma loop_step_back:
  assumes opn: "opn = CHR ''('' \<or> opn = CHR '')''"
      and sc: "scan_character opn (document_character doc pos1) l' s' = (f1, l1, s1)"
      and adv: "advance doc (delta_of opn) pos s' = Inr pos1"
      and valid: "document_character doc pos \<noteq> None"
      and lev: "1 \<le> c + l'"
      and st: "s' \<in> quote_states"
  shows "matchingParenthesisPosition_loop doc (closing_of opn) pos1 (c + l1) s1
       = matchingParenthesisPosition_loop doc (closing_of opn) pos (c + l') s'"
proof -
  have d: "delta_of opn = 1 \<or> delta_of opn = - 1" by (simp add: delta_of_def)
  have r: "scan_character (closing_of opn) (document_character doc pos1) (c + l1) s1
             = (False, c + l', s')"
    by (rule scan_character_reverse[OF opn sc st lev])
  have a: "advance doc (delta_of (closing_of opn)) pos1 s' = Inr pos"
    using advance_reverse(1)[OF d adv valid] by (simp add: delta_of_closing[OF opn])
  show ?thesis
    by (subst matchingParenthesisPosition_loop.simps) (simp add: r a)
qed

lemma loop_reverse_aux:
  assumes opn: "opn = CHR ''('' \<or> opn = CHR '')''" and c: "0 \<le> c"
  shows "matchingParenthesisPosition_loop doc opn pos l s = Inr q \<Longrightarrow> 1 \<le> l
         \<Longrightarrow> s \<in> quote_states \<Longrightarrow> document_character doc pos \<noteq> None
         \<Longrightarrow> scan_character opn (document_character doc pos) l s = (f, l', s')
         \<Longrightarrow> matchingParenthesisPosition_loop doc (closing_of opn) (unshift opn q) c None
             = matchingParenthesisPosition_loop doc (closing_of opn) pos (c + l') s'"
  using opn
proof (induction doc opn pos l s arbitrary: f l' s' rule: matchingParenthesisPosition_loop.induct)
  case (1 doc opn pos l s)
  note sc = \<open>scan_character opn (document_character doc pos) l s = (f, l', s')\<close>
  note opn' = \<open>opn = CHR ''('' \<or> opn = CHR '')''\<close>
  have loop: "matchingParenthesisPosition_loop doc opn pos l s = Inr q" by fact
  show ?case
  proof (cases f)
    case True
    with sc have l': "l' = 0" and s': "s' = None"
      using \<open>s \<in> quote_states\<close>
      by (auto simp: scan_character_def quote_states_def split: if_splits)
    from True sc loop have "unshift opn q = pos"
      by (subst (asm) matchingParenthesisPosition_loop.simps)
         (auto simp: unshift_def closing_of_def delta_of_def split: if_splits)
    then show ?thesis by (simp add: l' s')
  next
    case False
    from False sc loop obtain pos1 where
      adv: "advance doc (delta_of opn) pos s' = Inr pos1" and
      loop1: "matchingParenthesisPosition_loop doc opn pos1 l' s' = Inr q"
      by (subst (asm) matchingParenthesisPosition_loop.simps) (auto split: sum.splits)
    have d: "delta_of opn = 1 \<or> delta_of opn = - 1" by (simp add: delta_of_def)
    have s'q: "s' \<in> quote_states" and l'1: "1 \<le> l'"
      using scan_character_invariant[OF sc \<open>s \<in> quote_states\<close>] False \<open>1 \<le> l\<close> by auto
    have v1: "document_character doc pos1 \<noteq> None"
      by (rule advance_reverse(2)[OF d adv \<open>document_character doc pos \<noteq> None\<close>])
    obtain f1 l1 s1 where sc1: "scan_character opn (document_character doc pos1) l' s' = (f1, l1, s1)"
      by (cases "scan_character opn (document_character doc pos1) l' s'") auto
    have "matchingParenthesisPosition_loop doc (closing_of opn) (unshift opn q) c None
            = matchingParenthesisPosition_loop doc (closing_of opn) pos1 (c + l1) s1"
      using "1.IH"[OF sc[symmetric] refl False adv loop1 l'1 s'q v1 sc1 opn'] .
    also have "\<dots> = matchingParenthesisPosition_loop doc (closing_of opn) pos (c + l') s'"
      using loop_step_back[OF opn' sc1 adv \<open>document_character doc pos \<noteq> None\<close> _ s'q] l'1 c
      by simp
    finally show ?thesis .
  qed
qed

lemma loop_reverse_from_opening:
  assumes opn: "opn = CHR ''('' \<or> opn = CHR '')''"
      and ch: "document_character doc p = Some opn"
      and loop: "matchingParenthesisPosition_loop doc opn p 0 None = Inr q"
  shows "matchingParenthesisPosition_loop doc (closing_of opn) (unshift opn q) 0 None
       = matchingParenthesisPosition_loop doc (closing_of opn) p 1 None"
proof -
  have sc: "scan_character opn (Some opn) 0 None = (False, 1, None)"
    by (simp add: scan_character_def)
  from loop obtain p1 where
    adv: "advance doc (delta_of opn) p None = Inr p1" and
    loop1: "matchingParenthesisPosition_loop doc opn p1 1 None = Inr q"
    by (subst (asm) matchingParenthesisPosition_loop.simps)
       (auto simp: ch sc split: sum.splits)
  have d: "delta_of opn = 1 \<or> delta_of opn = - 1" by (simp add: delta_of_def)
  have v: "document_character doc p \<noteq> None" by (simp add: ch)
  have v1: "document_character doc p1 \<noteq> None" by (rule advance_reverse(2)[OF d adv v])
  have q0: "None \<in> quote_states" by (simp add: quote_states_def)
  obtain f1 l1 s1 where sc1: "scan_character opn (document_character doc p1) 1 None = (f1, l1, s1)"
    by (cases "scan_character opn (document_character doc p1) 1 None") auto
  have "matchingParenthesisPosition_loop doc (closing_of opn) (unshift opn q) 0 None
          = matchingParenthesisPosition_loop doc (closing_of opn) p1 (0 + l1) s1"
    by (rule loop_reverse_aux[OF opn _ loop1 _ q0 v1 sc1]) simp_all
  also have "\<dots> = matchingParenthesisPosition_loop doc (closing_of opn) p (0 + 1) None"
    by (rule loop_step_back[OF opn sc1 adv v _ q0]) simp
  finally show ?thesis by simp
qed


lemma backward_then_forward:
  assumes "document_character doc q = Some CHR '')''"
      and "matchingParenthesisPosition doc q CHR '')'' = Inr p"
  shows "matchingParenthesisPosition doc p CHR ''('' = Inr (q\<lparr>column := column q + 1\<rparr>)"
proof -
  have "matchingParenthesisPosition_loop doc CHR ''('' p 0 None
          = matchingParenthesisPosition_loop doc CHR ''('' q 1 None"
    using loop_reverse_from_opening[of "CHR '')''" doc q p] assms
    by (simp add: matchingParenthesisPosition_def unshift_def closing_of_def delta_of_def)
  also have "\<dots> = Inr (q\<lparr>column := column q + 1\<rparr>)"
    by (subst matchingParenthesisPosition_loop.simps)
       (simp add: assms(1) scan_character_def closing_of_def delta_of_def)
  finally show ?thesis by (simp add: matchingParenthesisPosition_def)
qed

subsection \<open>Balanced pairs\<close>




























section \<open>Quoted spans\<close>

text \<open>The line \<open>foo("a)b", c)\<close> of the spec's test; the quote character is written by its code.\<close>

definition quoted_paren_line :: string where
  "quoted_paren_line = ''foo('' @ [dquote] @ ''a)b'' @ [dquote] @ '', c)''"

lemma quoted_paren_line_text: \<open>quoted_paren_line = ''foo("a)b", c)''\<close>
  by (simp add: quoted_paren_line_def)

text \<open>The line \<open>f("a)b")\<close>, a call whose only argument is a quoted string.\<close>

definition quoted_argument_line :: string where
  "quoted_argument_line = ''f('' @ [dquote] @ ''a)b'' @ [dquote] @ '')''"

lemma scan_character_in_quote:
  "q = dquote \<or> q = squote \<Longrightarrow> ch \<noteq> q \<Longrightarrow>
     scan_character opening (Some ch) level (Some q) = (False, level, Some q)"
  by (auto simp: scan_character_def)

lemma advance_in_line:
  assumes "document_character doc \<lparr>line = n, column = c + d\<rparr> \<noteq> None"
  shows "advance doc d \<lparr>line = n, column = c\<rparr> state = Inr \<lparr>line = n, column = c + d\<rparr>"
  using assms by (auto simp: advance_def Let_def)

lemma loop_inside_quoted_span:
  assumes q: "q = dquote \<or> q = squote"
  shows "\<forall>i < k. \<exists>ch. document_character doc \<lparr>line = n, column = c + delta_of opening * int i\<rparr>
                        = Some ch \<and> ch \<noteq> q
     \<Longrightarrow> document_character doc \<lparr>line = n, column = c + delta_of opening * int k\<rparr> \<noteq> None
     \<Longrightarrow> matchingParenthesisPosition_loop doc opening \<lparr>line = n, column = c\<rparr> level (Some q)
       = matchingParenthesisPosition_loop doc opening
           \<lparr>line = n, column = c + delta_of opening * int k\<rparr> level (Some q)"
proof (induction k arbitrary: c)
  case 0
  then show ?case by simp
next
  case (Suc k)
  let ?d = "delta_of opening"
  from Suc.prems(1)[rule_format, of 0] obtain ch where
    ch: "document_character doc \<lparr>line = n, column = c\<rparr> = Some ch" "ch \<noteq> q" by auto
  have shift: "\<And>i. (c + ?d) + ?d * int i = c + ?d * int (Suc i)"
    by (simp add: algebra_simps)
  have v1: "document_character doc \<lparr>line = n, column = c + ?d\<rparr> \<noteq> None"
  proof (cases k)
    case 0
    with Suc.prems(2) show ?thesis by simp
  next
    case (Suc j)
    with Suc.prems(1)[rule_format, of 1] show ?thesis by auto
  qed
  have inner: "\<forall>i < k. \<exists>ch. document_character doc \<lparr>line = n, column = (c + ?d) + ?d * int i\<rparr>
                        = Some ch \<and> ch \<noteq> q"
  proof (intro allI impI)
    fix i assume "i < k"
    then have "Suc i < Suc k" by simp
    from Suc.prems(1)[rule_format, OF this]
    show "\<exists>ch. document_character doc \<lparr>line = n, column = (c + ?d) + ?d * int i\<rparr>
                        = Some ch \<and> ch \<noteq> q"
      by (simp only: shift)
  qed
  have last: "document_character doc \<lparr>line = n, column = (c + ?d) + ?d * int k\<rparr> \<noteq> None"
    unfolding shift by (rule Suc.prems(2))
  have "matchingParenthesisPosition_loop doc opening \<lparr>line = n, column = c\<rparr> level (Some q)
          = matchingParenthesisPosition_loop doc opening \<lparr>line = n, column = c + ?d\<rparr> level (Some q)"
    by (subst matchingParenthesisPosition_loop.simps)
       (simp add: ch scan_character_in_quote[OF q] advance_in_line[OF v1])
  also have "\<dots> = matchingParenthesisPosition_loop doc opening
                     \<lparr>line = n, column = (c + ?d) + ?d * int k\<rparr> level (Some q)"
    by (rule Suc.IH[OF inner last])
  finally show ?case by (simp only: shift)
qed

lemma loop_skips_quoted_span:
  assumes opn: "opening = CHR ''('' \<or> opening = CHR '')''"
      and q: "q = dquote \<or> q = squote"
      and first: "document_character doc \<lparr>line = n, column = c\<rparr> = Some q"
      and inner: "\<forall>i \<in> {1..k}. \<exists>ch. document_character doc
                     \<lparr>line = n, column = c + delta_of opening * int i\<rparr> = Some ch \<and> ch \<noteq> q"
      and e: "e = c + delta_of opening * int (k + 1)"
      and last: "document_character doc \<lparr>line = n, column = e\<rparr> = Some q"
  shows "matchingParenthesisPosition_loop doc opening \<lparr>line = n, column = c\<rparr> level None
       = (case advance doc (delta_of opening) \<lparr>line = n, column = e\<rparr> None of
            Inl err \<Rightarrow> Inl err
          | Inr pos' \<Rightarrow> matchingParenthesisPosition_loop doc opening pos' level None)"
proof -
  let ?d = "delta_of opening"
  have shift: "\<And>i. (c + ?d) + ?d * int i = c + ?d * int (i + 1)"
    by (simp add: algebra_simps)
  have e': "(c + ?d) + ?d * int k = e"
    unfolding shift by (rule e[symmetric])
  have inner': "\<forall>i < k. \<exists>ch. document_character doc \<lparr>line = n, column = (c + ?d) + ?d * int i\<rparr>
                        = Some ch \<and> ch \<noteq> q"
  proof (intro allI impI)
    fix i assume "i < k"
    then have "i + 1 \<in> {1..k}" by simp
    from inner[rule_format, OF this]
    show "\<exists>ch. document_character doc \<lparr>line = n, column = (c + ?d) + ?d * int i\<rparr>
                        = Some ch \<and> ch \<noteq> q"
      unfolding shift .
  qed
  have last': "document_character doc \<lparr>line = n, column = (c + ?d) + ?d * int k\<rparr> \<noteq> None"
    unfolding e' by (simp add: last)
  have v1: "document_character doc \<lparr>line = n, column = c + ?d\<rparr> \<noteq> None"
  proof (cases k)
    case 0
    with e have "e = c + ?d" by simp
    with last show ?thesis by simp
  next
    case (Suc j)
    then have "1 \<in> {1..k}" by simp
    from inner[rule_format, OF this] show ?thesis by auto
  qed
  have sc0: "scan_character opening (Some q) level None = (False, level, Some q)"
    using opn q by (auto simp: scan_character_def closing_of_def)
  have sc1: "scan_character opening (Some q) level (Some q) = (False, level, None)"
    using q by (auto simp: scan_character_def)
  have "matchingParenthesisPosition_loop doc opening \<lparr>line = n, column = c\<rparr> level None
          = matchingParenthesisPosition_loop doc opening \<lparr>line = n, column = c + ?d\<rparr> level (Some q)"
    by (subst matchingParenthesisPosition_loop.simps)
       (simp add: first sc0 advance_in_line[OF v1])
  also have "\<dots> = matchingParenthesisPosition_loop doc opening
                     \<lparr>line = n, column = (c + ?d) + ?d * int k\<rparr> level (Some q)"
    by (rule loop_inside_quoted_span[OF q inner' last'])
  also have "\<dots> = matchingParenthesisPosition_loop doc opening
                     \<lparr>line = n, column = e\<rparr> level (Some q)"
    unfolding e' ..
  also have "\<dots> = (case advance doc ?d \<lparr>line = n, column = e\<rparr> None of
            Inl err \<Rightarrow> Inl err
          | Inr pos' \<Rightarrow> matchingParenthesisPosition_loop doc opening pos' level None)"
    by (subst matchingParenthesisPosition_loop.simps) (simp add: last sc1)
  finally show ?thesis .
qed

lemma match_quoted_argument:
  assumes q: "q = dquote \<or> q = squote"
      and popen: "document_character doc \<lparr>line = n, column = c\<rparr> = Some CHR ''(''"
      and first: "document_character doc \<lparr>line = n, column = c + 1\<rparr> = Some q"
      and inner: "\<forall>i \<in> {1..k}. \<exists>ch. document_character doc
                     \<lparr>line = n, column = c + 1 + int i\<rparr> = Some ch \<and> ch \<noteq> q"
      and last: "document_character doc \<lparr>line = n, column = c + int k + 2\<rparr> = Some q"
      and pclose: "document_character doc \<lparr>line = n, column = c + int k + 3\<rparr> = Some CHR '')''"
  shows "matchingParenthesisPosition doc \<lparr>line = n, column = c\<rparr> CHR ''(''
           = Inr \<lparr>line = n, column = c + int k + 4\<rparr>"
proof -
  have d: "delta_of CHR ''('' = 1" by (simp add: delta_of_def)
  have v1: "document_character doc \<lparr>line = n, column = c + 1\<rparr> \<noteq> None"
    using first by simp
  have v2: "document_character doc \<lparr>line = n, column = (c + int k + 2) + 1\<rparr> \<noteq> None"
    using pclose by (simp add: add.commute add.left_commute)
  have inner': "\<forall>i \<in> {1..k}. \<exists>ch. document_character doc
      \<lparr>line = n, column = (c + 1) + delta_of CHR ''('' * int i\<rparr> = Some ch \<and> ch \<noteq> q"
    using inner by (simp add: d)
  have e: "c + int k + 2 = (c + 1) + delta_of CHR ''('' * int (k + 1)"
    by (simp add: d)
  have "matchingParenthesisPosition doc \<lparr>line = n, column = c\<rparr> CHR ''(''
          = matchingParenthesisPosition_loop doc CHR ''('' \<lparr>line = n, column = c + 1\<rparr> 1 None"
    unfolding matchingParenthesisPosition_def
    by (subst matchingParenthesisPosition_loop.simps)
       (simp add: popen scan_character_def d advance_in_line[OF v1])
  also have "\<dots> = (case advance doc (delta_of CHR ''('') \<lparr>line = n, column = c + int k + 2\<rparr> None of
            Inl err \<Rightarrow> Inl err
          | Inr pos' \<Rightarrow> matchingParenthesisPosition_loop doc CHR ''('' pos' 1 None)"
    by (rule loop_skips_quoted_span[OF _ q first inner' e last]) simp
  also have "\<dots> = matchingParenthesisPosition_loop doc CHR ''(''
                     \<lparr>line = n, column = (c + int k + 2) + 1\<rparr> 1 None"
    by (simp add: d advance_in_line[OF v2])
  also have "\<dots> = Inr \<lparr>line = n, column = c + int k + 4\<rparr>"
    using pclose
    by (subst matchingParenthesisPosition_loop.simps)
       (simp add: scan_character_def closing_of_def d add.commute add.left_commute)
  finally show ?thesis .
qed

text \<open>
  C2. The claim: a delimiter inside a quoted span is never counted toward the nesting
  level, and the match of the outer parenthesis of \<open>foo("a)b", c)\<close> lands on the final
  \<open>)\<close>. The first part holds for the loop of the matcher, in both directions: when the
  scan arrives, outside of a quoted span and with some nesting level, at a quote character
  \<open>q\<close> that is followed in the direction of the scan by \<open>k\<close> characters other than
  \<open>q\<close> (parentheses and the other quote character included) and then by \<open>q\<close> again,
  it goes on after that second \<open>q\<close> with the same nesting level and outside of a quoted
  span. So the match from a parenthesis that is followed by a quoted string and the
  closing parenthesis returns the column after that closing parenthesis, whatever the
  string contains. The second part holds up to the column of the result: the scan stops at the final
  parenthesis at column 12, passing the one at column 6 inside the string literal, and
  returns column 13, the column after the parenthesis, as every forward match does; it does
  so too when text follows the parenthesis. Without the quotes, in \<open>foo(a)b, c)\<close>, the
  match stops at the first closing parenthesis.
\<close>

theorem quoted_span_not_counted:
  "(opening \<in> {CHR ''('', CHR '')''} \<and> q \<in> {dquote, squote}
      \<and> document_character doc \<lparr>line = n, column = c\<rparr> = Some q
      \<and> (\<forall>i \<in> {1..k}. \<exists>ch. document_character doc
                \<lparr>line = n, column = c + delta_of opening * int i\<rparr> = Some ch \<and> ch \<noteq> q)
      \<and> document_character doc \<lparr>line = n, column = c + delta_of opening * int (k + 1)\<rparr> = Some q
    \<longrightarrow> matchingParenthesisPosition_loop doc opening \<lparr>line = n, column = c\<rparr> level None
        = (case advance doc (delta_of opening)
                  \<lparr>line = n, column = c + delta_of opening * int (k + 1)\<rparr> None of
             Inl err \<Rightarrow> Inl err
           | Inr pos' \<Rightarrow> matchingParenthesisPosition_loop doc opening pos' level None))
   \<and> (q \<in> {dquote, squote}
      \<and> document_character doc \<lparr>line = n, column = c\<rparr> = Some CHR ''(''
      \<and> document_character doc \<lparr>line = n, column = c + 1\<rparr> = Some q
      \<and> (\<forall>i \<in> {1..k}. \<exists>ch. document_character doc
                \<lparr>line = n, column = c + 1 + int i\<rparr> = Some ch \<and> ch \<noteq> q)
      \<and> document_character doc \<lparr>line = n, column = c + int k + 2\<rparr> = Some q
      \<and> document_character doc \<lparr>line = n, column = c + int k + 3\<rparr> = Some CHR '')''
    \<longrightarrow> matchingParenthesisPosition doc \<lparr>line = n, column = c\<rparr> CHR ''(''
        = Inr \<lparr>line = n, column = c + int k + 4\<rparr>)
   \<and> matchingParenthesisPosition [quoted_paren_line] \<lparr>line = 0, column = 3\<rparr> CHR ''(''
       = Inr \<lparr>line = 0, column = 13\<rparr>
   \<and> document_character [quoted_paren_line] \<lparr>line = 0, column = 3\<rparr> = Some CHR ''(''
   \<and> document_character [quoted_paren_line] \<lparr>line = 0, column = 6\<rparr> = Some CHR '')''
   \<and> document_character [quoted_paren_line] \<lparr>line = 0, column = 12\<rparr> = Some CHR '')''
   \<and> matchingParenthesisPosition [quoted_paren_line @ '' yy''] \<lparr>line = 0, column = 3\<rparr> CHR ''(''
       = Inr \<lparr>line = 0, column = 13\<rparr>
   \<and> matchingParenthesisPosition [''foo(a)b, c)''] \<lparr>line = 0, column = 3\<rparr> CHR ''(''
       = Inr \<lparr>line = 0, column = 6\<rparr>"
proof (intro conjI impI)
  assume h: "opening \<in> {CHR ''('', CHR '')''} \<and> q \<in> {dquote, squote}
      \<and> document_character doc \<lparr>line = n, column = c\<rparr> = Some q
      \<and> (\<forall>i \<in> {1..k}. \<exists>ch. document_character doc
                \<lparr>line = n, column = c + delta_of opening * int i\<rparr> = Some ch \<and> ch \<noteq> q)
      \<and> document_character doc \<lparr>line = n, column = c + delta_of opening * int (k + 1)\<rparr> = Some q"
  then have opn: "opening = CHR ''('' \<or> opening = CHR '')''" and q: "q = dquote \<or> q = squote"
    by auto
  from h show "matchingParenthesisPosition_loop doc opening \<lparr>line = n, column = c\<rparr> level None
        = (case advance doc (delta_of opening)
                  \<lparr>line = n, column = c + delta_of opening * int (k + 1)\<rparr> None of
             Inl err \<Rightarrow> Inl err
           | Inr pos' \<Rightarrow> matchingParenthesisPosition_loop doc opening pos' level None)"
    by (intro loop_skips_quoted_span[OF opn q _ _ refl]) blast+
next
  assume h: "q \<in> {dquote, squote}
      \<and> document_character doc \<lparr>line = n, column = c\<rparr> = Some CHR ''(''
      \<and> document_character doc \<lparr>line = n, column = c + 1\<rparr> = Some q
      \<and> (\<forall>i \<in> {1..k}. \<exists>ch. document_character doc
                \<lparr>line = n, column = c + 1 + int i\<rparr> = Some ch \<and> ch \<noteq> q)
      \<and> document_character doc \<lparr>line = n, column = c + int k + 2\<rparr> = Some q
      \<and> document_character doc \<lparr>line = n, column = c + int k + 3\<rparr> = Some CHR '')''"
  then have q: "q = dquote \<or> q = squote" by auto
  from h show "matchingParenthesisPosition doc \<lparr>line = n, column = c\<rparr> CHR ''(''
        = Inr \<lparr>line = n, column = c + int k + 4\<rparr>"
    by (intro match_quoted_argument[OF q]) blast+
qed code_simp+

theorem quoted_span_not_counted_witness:
  "document_character [quoted_paren_line] \<lparr>line = 0, column = 4\<rparr> = Some dquote
   \<and> document_character [quoted_paren_line] \<lparr>line = 0, column = 5\<rparr> = Some CHR ''a''
   \<and> document_character [quoted_paren_line] \<lparr>line = 0, column = 6\<rparr> = Some CHR '')''
   \<and> document_character [quoted_paren_line] \<lparr>line = 0, column = 7\<rparr> = Some CHR ''b''
   \<and> document_character [quoted_paren_line] \<lparr>line = 0, column = 8\<rparr> = Some dquote
   \<and> matchingParenthesisPosition_loop [quoted_paren_line] CHR ''('' \<lparr>line = 0, column = 4\<rparr> 1 None
       = matchingParenthesisPosition_loop [quoted_paren_line] CHR ''('' \<lparr>line = 0, column = 9\<rparr> 1 None
   \<and> document_character [quoted_argument_line] \<lparr>line = 0, column = 4\<rparr> = Some CHR '')''
   \<and> matchingParenthesisPosition [quoted_argument_line] \<lparr>line = 0, column = 1\<rparr> CHR ''(''
       = Inr \<lparr>line = 0, column = 8\<rparr>"
proof -
  have g1: "document_character [quoted_argument_line] \<lparr>line = 0, column = 1\<rparr> = Some CHR ''(''"
    and g2: "document_character [quoted_argument_line] \<lparr>line = 0, column = 1 + 1\<rparr> = Some dquote"
    and g4: "document_character [quoted_argument_line] \<lparr>line = 0, column = 1 + int 3 + 2\<rparr>
               = Some dquote"
    and g5: "document_character [quoted_argument_line] \<lparr>line = 0, column = 1 + int 3 + 3\<rparr>
               = Some CHR '')''"
    and g6: "document_character [quoted_argument_line] \<lparr>line = 0, column = 4\<rparr> = Some CHR '')''"
    by code_simp+
  have g3: "\<forall>i \<in> {1..3}. \<exists>ch. document_character [quoted_argument_line]
             \<lparr>line = 0, column = 1 + 1 + int i\<rparr> = Some ch \<and> ch \<noteq> dquote"
  proof
    fix i :: nat assume "i \<in> {1..3}"
    then have "i = 1 \<or> i = 2 \<or> i = 3" by auto
    then show "\<exists>ch. document_character [quoted_argument_line]
             \<lparr>line = 0, column = 1 + 1 + int i\<rparr> = Some ch \<and> ch \<noteq> dquote"
      by (auto simp: document_character_def quoted_argument_line_def)
  qed
  from quoted_span_not_counted[of "CHR ''(''" dquote "[quoted_argument_line]" 0 1 3 1,
        THEN conjunct2, THEN conjunct1, rule_format] g1 g2 g3 g4 g5
  have g: "matchingParenthesisPosition [quoted_argument_line] \<lparr>line = 0, column = 1\<rparr> CHR ''(''
       = Inr \<lparr>line = 0, column = 8\<rparr>"
    by simp
  have a: "document_character [quoted_paren_line] \<lparr>line = 0, column = 4\<rparr> = Some dquote"
    by code_simp
  have b: "\<forall>i \<in> {1..3}. \<exists>ch. document_character [quoted_paren_line]
             \<lparr>line = 0, column = 4 + delta_of CHR ''('' * int i\<rparr> = Some ch \<and> ch \<noteq> dquote"
  proof
    fix i :: nat assume "i \<in> {1..3}"
    then have "i = 1 \<or> i = 2 \<or> i = 3" by auto
    then show "\<exists>ch. document_character [quoted_paren_line]
             \<lparr>line = 0, column = 4 + delta_of CHR ''('' * int i\<rparr> = Some ch \<and> ch \<noteq> dquote"
      by (auto simp: document_character_def quoted_paren_line_def delta_of_def)
  qed
  have c: "document_character [quoted_paren_line]
        \<lparr>line = 0, column = 4 + delta_of CHR ''('' * int (3 + 1)\<rparr> = Some dquote"
    by code_simp
  have d: "document_character [quoted_paren_line] \<lparr>line = 0, column = 6\<rparr> = Some CHR '')''"
    by code_simp
  have e: "advance [quoted_paren_line] (delta_of CHR ''('')
             \<lparr>line = 0, column = 4 + delta_of CHR ''('' * int (3 + 1)\<rparr> None
           = Inr \<lparr>line = 0, column = 9\<rparr>"
    by code_simp
  from quoted_span_not_counted[of "CHR ''(''" dquote "[quoted_paren_line]" 0 4 3 1,
        THEN conjunct1, rule_format] a b c
  have "matchingParenthesisPosition_loop [quoted_paren_line] CHR ''('' \<lparr>line = 0, column = 4\<rparr> 1 None
       = (case advance [quoted_paren_line] (delta_of CHR ''('')
                  \<lparr>line = 0, column = 4 + delta_of CHR ''('' * int (3 + 1)\<rparr> None of
             Inl err \<Rightarrow> Inl err
           | Inr pos' \<Rightarrow> matchingParenthesisPosition_loop [quoted_paren_line] CHR ''('' pos' 1 None)"
    by simp
  then have "matchingParenthesisPosition_loop [quoted_paren_line] CHR ''('' \<lparr>line = 0, column = 4\<rparr> 1 None
       = matchingParenthesisPosition_loop [quoted_paren_line] CHR ''('' \<lparr>line = 0, column = 9\<rparr> 1 None"
    by (simp only: e sum.case)
  moreover have "document_character [quoted_paren_line] \<lparr>line = 0, column = 5\<rparr> = Some CHR ''a''"
    and "document_character [quoted_paren_line] \<lparr>line = 0, column = 7\<rparr> = Some CHR ''b''"
    and "document_character [quoted_paren_line] \<lparr>line = 0, column = 8\<rparr> = Some dquote"
    by code_simp+
  ultimately show ?thesis using a d g g6 by simp
qed

theorem quoted_example_result_not_close_paren:
  "document_character [quoted_paren_line] \<lparr>line = 0, column = 12\<rparr> = Some CHR '')''
   \<and> length quoted_paren_line = 13
   \<and> matchingParenthesisPosition [quoted_paren_line] \<lparr>line = 0, column = 3\<rparr> CHR ''(''
        \<noteq> Inr \<lparr>line = 0, column = 12\<rparr>"
  by (intro conjI; code_simp)

section \<open>Properties of the argument parsing\<close>

lemma last_dropWhile:
  "dropWhile P xs \<noteq> [] \<Longrightarrow> last (dropWhile P xs) = last xs"
  by (metis last_appendR takeWhile_dropWhile_id)

lemma py_strip_trimmed:
  assumes "py_strip s \<noteq> []"
  shows "\<not> py_isspace (hd (py_strip s))" and "\<not> py_isspace (last (py_strip s))"
proof -
  let ?t = "dropWhile py_isspace s"
  let ?u = "dropWhile py_isspace (rev ?t)"
  from assms have u: "?u \<noteq> []" by (simp add: py_strip_def)
  have t: "?t \<noteq> []"
  proof
    assume e: "?t = []"
    have "?u = []" unfolding e by simp
    with u show False by blast
  qed
  have "\<not> py_isspace (hd ?u)" using u by (rule hd_dropWhile)
  then show "\<not> py_isspace (last (py_strip s))"
    using u by (simp add: py_strip_def last_rev)
  have "last ?u = last (rev ?t)" using u by (rule last_dropWhile)
  also have "\<dots> = hd ?t" using t by (simp add: last_rev)
  finally have "hd (py_strip s) = hd ?t"
    using u by (simp add: py_strip_def hd_rev)
  moreover have "\<not> py_isspace (hd ?t)" using t by (rule hd_dropWhile)
  ultimately show "\<not> py_isspace (hd (py_strip s))" by simp
qed

lemma set_py_strip: "set (py_strip s) \<subseteq> set s"
proof -
  have "set (py_strip s) \<subseteq> set (dropWhile py_isspace s)"
    by (auto simp: py_strip_def dest: set_dropWhileD)
  also have "\<dots> \<subseteq> set s" by (auto dest: set_dropWhileD)
  finally show ?thesis .
qed

lemma py_split_not_Nil: "py_split sep s \<noteq> []"
  by (induction s) (auto split: list.splits)

lemma length_py_split: "length (py_split sep s) = Suc (count_list s sep)"
  by (induction s) (auto split: list.splits simp: py_split_not_Nil)

lemma py_split_pieces: "x \<in> set (py_split sep s) \<Longrightarrow> sep \<notin> set x \<and> set x \<subseteq> set s"
proof (induction s arbitrary: x)
  case Nil
  then show ?case by simp
next
  case (Cons c cs)
  show ?case
  proof (cases "c = sep")
    case True
    with Cons show ?thesis by auto
  next
    case False
    obtain piece pieces where p: "py_split sep cs = piece # pieces"
      using py_split_not_Nil[of sep cs] by (cases "py_split sep cs") auto
    from Cons.prems False p have "x = c # piece \<or> x \<in> set pieces" by simp
    then show ?thesis
    proof
      assume "x = c # piece"
      moreover have "sep \<notin> set piece \<and> set piece \<subseteq> set cs"
        using Cons.IH[of piece] p by simp
      ultimately show ?thesis using False by auto
    next
      assume "x \<in> set pieces"
      then have "sep \<notin> set x \<and> set x \<subseteq> set cs" using Cons.IH[of x] p by simp
      then show ?thesis by auto
    qed
  qed
qed

lemma preArgs_items:
  assumes "a \<in> set (preArgs text)"
  shows "a \<noteq> []" and "\<not> py_isspace (hd a)" and "\<not> py_isspace (last a)"
    and "CHR '','' \<notin> set a"
proof -
  from assms obtain x where x: "x \<in> set (py_split CHR '','' (py_slice_1_minus1 text))"
      "py_strip x \<noteq> []" "a = py_strip x"
    by (auto simp: preArgs_def)
  show "a \<noteq> []" using x by simp
  show "\<not> py_isspace (hd a)" "\<not> py_isspace (last a)"
    using py_strip_trimmed[OF x(2)] x(3) by simp_all
  show "CHR '','' \<notin> set a"
    using py_split_pieces[OF x(1)] set_py_strip[of x] x(3) by auto
qed

definition key_of :: "string \<Rightarrow> string" where
  "key_of arg = py_strip (hd (py_split CHR ''='' arg))"

lemma collect_arguments_Inr:
  "collect_arguments items (arguments0, namedArgs0) = Inr (arguments, namedArgs) \<Longrightarrow>
     arguments = arguments0 @ filter (\<lambda>a. CHR ''='' \<notin> set a) items
     \<and> fst ` set namedArgs
         = fst ` set namedArgs0 \<union> key_of ` {a \<in> set items. CHR ''='' \<in> set a}"
proof (induction items arbitrary: arguments0 namedArgs0)
  case Nil
  then show ?case by simp
next
  case (Cons arg items)
  show ?case
  proof (cases "CHR ''='' \<in> set arg")
    case False
    with Cons.prems have "collect_arguments items (arguments0 @ [arg], namedArgs0)
        = Inr (arguments, namedArgs)" by simp
    from Cons.IH[OF this] False show ?thesis by auto
  next
    case True
    with Cons.prems obtain key val where
      kv: "map py_strip (py_split CHR ''='' arg) = [key, val]"
      and rest: "collect_arguments items (arguments0, AList.update key val namedArgs0)
                   = Inr (arguments, namedArgs)"
      by (auto split: list.splits)
    from kv have "key = key_of arg"
      by (cases "py_split CHR ''='' arg") (auto simp: key_of_def)
    with Cons.IH[OF rest] True show ?thesis
      by (auto simp: dom_update)
  qed
qed

lemma set_preArgs:
  "set (preArgs text) = py_strip ` set (py_split CHR '','' (py_slice_1_minus1 text)) - {[]}"
  by (auto simp: preArgs_def)

text \<open>
  C7. The input \<open>(a, b=2, c = 3)\<close> parses to the positional arguments \<open>["a"]\<close> and
  the keyword arguments \<open>{"b": "2", "c": "3"}\<close>, the values being strings. For every
  text: the items are the pieces between the commas of the inner text, trimmed, without
  the empty ones, so that an item is not empty and neither starts nor ends with
  whitespace; and when the parse returns, the positional arguments are the items without
  \<open>=\<close>, in order, and the keys of the keyword arguments come from the items with
  \<open>=\<close>, each key the trimmed text before the \<open>=\<close>.
\<close>

theorem argument_parsing_example:
  "parse_arguments ''(a, b=2, c = 3)'' = Inr ([''a''], [(''b'', ''2''), (''c'', ''3'')])
   \<and> set (preArgs text) = py_strip ` set (py_split CHR '','' (py_slice_1_minus1 text)) - {[]}
   \<and> (\<forall>a \<in> set (preArgs text). a \<noteq> [] \<and> \<not> py_isspace (hd a) \<and> \<not> py_isspace (last a))
   \<and> (parse_arguments text = Inr (arguments, namedArgs) \<longrightarrow>
         arguments = filter (\<lambda>a. CHR ''='' \<notin> set a) (preArgs text)
         \<and> fst ` set namedArgs = key_of ` {a \<in> set (preArgs text). CHR ''='' \<in> set a})"
proof (intro conjI ballI impI)
  show "parse_arguments ''(a, b=2, c = 3)'' = Inr ([''a''], [(''b'', ''2''), (''c'', ''3'')])"
    by code_simp
  show "set (preArgs text) = py_strip ` set (py_split CHR '','' (py_slice_1_minus1 text)) - {[]}"
    by (rule set_preArgs)
next
  fix a assume "a \<in> set (preArgs text)"
  then show "a \<noteq> []" "\<not> py_isspace (hd a)" "\<not> py_isspace (last a)"
    by (rule preArgs_items)+
next
  assume "parse_arguments text = Inr (arguments, namedArgs)"
  then have "collect_arguments (preArgs text) ([], []) = Inr (arguments, namedArgs)"
    by (simp add: parse_arguments_def)
  from collect_arguments_Inr[OF this]
  show "arguments = filter (\<lambda>a. CHR ''='' \<notin> set a) (preArgs text)"
    and "fst ` set namedArgs = key_of ` {a \<in> set (preArgs text). CHR ''='' \<in> set a}"
    by simp_all
qed

theorem argument_parsing_example_witness:
  "preArgs ''(a, b=2, c = 3)'' = [''a'', ''b=2'', ''c = 3'']
   \<and> [''a''] = filter (\<lambda>a. CHR ''='' \<notin> set a) (preArgs ''(a, b=2, c = 3)'')
   \<and> fst ` set [(''b'', ''2''), (''c'', ''3'')]
       = key_of ` {a \<in> set (preArgs ''(a, b=2, c = 3)''). CHR ''='' \<in> set a}"
proof -
  have p: "preArgs ''(a, b=2, c = 3)'' = [''a'', ''b=2'', ''c = 3'']" by code_simp
  note t = argument_parsing_example[of "''(a, b=2, c = 3)''" "[''a'']"
      "[(''b'', ''2''), (''c'', ''3'')]"]
  from t have "parse_arguments ''(a, b=2, c = 3)'' = Inr ([''a''], [(''b'', ''2''), (''c'', ''3'')])"
    by (rule conjunct1)
  with t p show ?thesis by blast
qed

definition quoted_comma_text :: string where
  "quoted_comma_text = ''('' @ [dquote] @ ''a,b'' @ [dquote] @ '')''"

lemma quoted_comma_text_text: \<open>quoted_comma_text = ''("a,b")''\<close>
  by (simp add: quoted_comma_text_def)

text \<open>
  C8. The claim: the inner text is split on the commas at the top level only, a comma
  inside a quoted string or inside nested parentheses is not a split point. The code
  splits with \<open>str.split(',')\<close>: every comma is a split point, \<open>("a,b")\<close> gives two
  arguments and \<open>(f(1,2), 3)\<close> three. What holds: the inner text is split on every
  comma, into one piece more than it has commas, and no piece, no item and no positional
  argument contains a comma.
\<close>

theorem arguments_split_on_every_comma:
  "length (py_split CHR '','' s) = Suc (count_list s CHR '','')
   \<and> (\<forall>x \<in> set (py_split CHR '','' s). CHR '','' \<notin> set x)
   \<and> (\<forall>a \<in> set (preArgs text). CHR '','' \<notin> set a)
   \<and> (parse_arguments text = Inr (arguments, namedArgs) \<longrightarrow>
         (\<forall>a \<in> set arguments. CHR '','' \<notin> set a))"
proof (intro conjI ballI impI)
  show "length (py_split CHR '','' s) = Suc (count_list s CHR '','')"
    by (rule length_py_split)
next
  fix x assume "x \<in> set (py_split CHR '','' s)"
  then show "CHR '','' \<notin> set x" by (simp add: py_split_pieces)
next
  fix a assume "a \<in> set (preArgs text)"
  then show "CHR '','' \<notin> set a" by (rule preArgs_items(4))
next
  fix a assume p: "parse_arguments text = Inr (arguments, namedArgs)" and a: "a \<in> set arguments"
  from p have "collect_arguments (preArgs text) ([], []) = Inr (arguments, namedArgs)"
    by (simp add: parse_arguments_def)
  from collect_arguments_Inr[OF this] a have "a \<in> set (preArgs text)" by auto
  then show "CHR '','' \<notin> set a" by (rule preArgs_items(4))
qed

theorem arguments_split_on_every_comma_witness:
  "''f(1'' \<in> set (py_split CHR '','' ''f(1,2), 3'')
   \<and> CHR '','' \<notin> set ''f(1''
   \<and> length (py_split CHR '','' ''f(1,2), 3'') = 3
   \<and> parse_arguments ''(f(1,2), 3)'' = Inr ([''f(1'', ''2)'', ''3''], [])"
proof -
  have a: "''f(1'' \<in> set (py_split CHR '','' ''f(1,2), 3'')" by code_simp
  have b: "count_list ''f(1,2), 3'' CHR '','' = 2" by code_simp
  have c: "parse_arguments ''(f(1,2), 3)'' = Inr ([''f(1'', ''2)'', ''3''], [])" by code_simp
  note t = arguments_split_on_every_comma[of "''f(1,2), 3''" "''(f(1,2), 3)''"
      "[''f(1'', ''2)'', ''3'']" "[]"]
  from t a have "CHR '','' \<notin> set ''f(1''" by blast
  moreover from t b have "length (py_split CHR '','' ''f(1,2), 3'') = 3" by simp
  ultimately show ?thesis using a c by simp
qed

theorem comma_in_quotes_and_nesting_splits:
  "parse_arguments quoted_comma_text = Inr ([[dquote, CHR ''a''], [CHR ''b'', dquote]], [])
   \<and> parse_arguments ''(f(1,2), 3)'' = Inr ([''f(1'', ''2)'', ''3''], [])"
  by (intro conjI; code_simp)

section \<open>Properties of the expansion registry\<close>

text \<open>
  \<open>first_wins earlier later\<close> looks a key up in \<open>earlier\<close> and, where it is absent
  there, in \<open>later\<close>.
\<close>

definition first_wins ::
  "('k \<rightharpoonup> 'v) \<Rightarrow> ('k \<rightharpoonup> 'v) \<Rightarrow> 'k \<Rightarrow> 'v option" where
  "first_wins earlier later k = (case earlier k of Some v \<Rightarrow> Some v | None \<Rightarrow> later k)"

lemma map_of_mergeExpansions_step:
  "map_of (fst (mergeExpansions_step item (result, log))) k
     = first_wins (map_of result) (map_of [item]) k"
  by (cases item)
     (auto simp: mergeExpansions_step_def first_wins_def update_conv' split: option.splits)

lemma map_of_fold_mergeExpansions_step:
  "map_of (fst (fold mergeExpansions_step right acc)) k
     = first_wins (map_of (fst acc)) (map_of right) k"
proof (induction right arbitrary: acc)
  case Nil
  then show ?case by (simp add: first_wins_def split: option.splits)
next
  case (Cons item right)
  obtain result log where acc: "acc = (result, log)" by (cases acc)
  show ?case
    by (simp add: Cons.IH acc map_of_mergeExpansions_step first_wins_def split: option.splits)
qed

lemma map_of_mergeExpansions:
  "map_of (fst (mergeExpansions left right)) k = first_wins (map_of left) (map_of right) k"
  by (simp add: mergeExpansions_def map_of_fold_mergeExpansions_step)

lemma map_of_append_first_wins:
  "map_of (xs @ ys) k = first_wins (map_of xs) (map_of ys) k"
  by (simp add: first_wins_def map_add_def split: option.splits)

lemma mergeExpansions_step_log_mono:
  "set (snd acc) \<subseteq> set (snd (mergeExpansions_step item acc))"
  by (cases item; cases acc) (auto simp: mergeExpansions_step_def split: option.splits)

lemma fold_mergeExpansions_step_log_mono:
  "set (snd acc) \<subseteq> set (snd (fold mergeExpansions_step right acc))"
proof (induction right arbitrary: acc)
  case Nil
  then show ?case by simp
next
  case (Cons item right)
  have "set (snd acc) \<subseteq> set (snd (mergeExpansions_step item acc))"
    by (rule mergeExpansions_step_log_mono)
  also have "\<dots> \<subseteq> set (snd (fold mergeExpansions_step right (mergeExpansions_step item acc)))"
    by (rule Cons.IH)
  finally show ?case by simp
qed

lemma fold_mergeExpansions_step_logs_loser:
  "(k, v) \<in> set right \<Longrightarrow> map_of (fst acc) k = Some w \<Longrightarrow>
     IgnoreDuplicate k (snd v) \<in> set (snd (fold mergeExpansions_step right acc))
     \<and> FirstDefinedHere (snd w) \<in> set (snd (fold mergeExpansions_step right acc))"
proof (induction right arbitrary: acc)
  case Nil
  then show ?case by simp
next
  case (Cons item right)
  obtain result log where acc: "acc = (result, log)" by (cases acc)
  show ?case
  proof (cases "item = (k, v)")
    case True
    with Cons.prems(2) acc
    have "IgnoreDuplicate k (snd v) \<in> set (snd (mergeExpansions_step item acc))"
      and "FirstDefinedHere (snd w) \<in> set (snd (mergeExpansions_step item acc))"
      by (simp_all add: mergeExpansions_step_def)
    then show ?thesis
      using fold_mergeExpansions_step_log_mono[of "mergeExpansions_step item acc" right]
      by auto
  next
    case False
    with Cons.prems(1) have in_rest: "(k, v) \<in> set right" by simp
    have "map_of (fst (mergeExpansions_step item acc)) k = Some w"
      using Cons.prems(2) by (simp add: acc map_of_mergeExpansions_step first_wins_def)
    from Cons.IH[OF in_rest this] show ?thesis by simp
  qed
qed

lemma mergeExpansions_logs_loser:
  "(k, v) \<in> set right \<Longrightarrow> map_of left k = Some w \<Longrightarrow>
     IgnoreDuplicate k (snd v) \<in> set (snd (mergeExpansions left right))
     \<and> FirstDefinedHere (snd w) \<in> set (snd (mergeExpansions left right))"
  unfolding mergeExpansions_def by (rule fold_mergeExpansions_step_logs_loser) simp_all

text \<open>What the scan of the directories loads, in the order of the scan.\<close>

definition loaded_from :: "host \<Rightarrow> string \<Rightarrow> string \<Rightarrow> expansions" where
  "loaded_from h name directory =
     (if path_exists h (os_path_join directory name)
      then (case loadExpansionsFromFile h (os_path_join directory name) of
              Inl e \<Rightarrow> [] | Inr (loaded, log) \<Rightarrow> loaded)
      else [])"

lemma map_of_getExpansionsFor_directories:
  "getExpansionsFor_directories h name directories (expansions, log) = Inr (result, log') \<Longrightarrow>
     map_of result k
       = map_of (expansions @ concat (map (loaded_from h name) directories)) k"
proof (induction directories arbitrary: expansions log)
  case Nil
  then show ?case by simp
next
  case (Cons directory directories)
  show ?case
  proof (cases "path_exists h (os_path_join directory name)")
    case False
    with Cons.prems have "getExpansionsFor_directories h name directories (expansions, log)
        = Inr (result, log')" by simp
    from Cons.IH[OF this] False show ?thesis by (simp add: loaded_from_def)
  next
    case True
    with Cons.prems obtain loaded log1 where
      ld: "loadExpansionsFromFile h (os_path_join directory name) = Inr (loaded, log1)"
      by (auto split: sum.splits)
    obtain merged log2 where m: "mergeExpansions expansions loaded = (merged, log2)"
      by (cases "mergeExpansions expansions loaded")
    from Cons.prems True ld m
    have "getExpansionsFor_directories h name directories (merged, log @ log1 @ log2)
            = Inr (result, log')" by simp
    from Cons.IH[OF this]
    have "map_of result k = map_of (merged @ concat (map (loaded_from h name) directories)) k" .
    also have "\<dots> = first_wins (map_of merged)
                       (map_of (concat (map (loaded_from h name) directories))) k"
      by (rule map_of_append_first_wins)
    also have "map_of merged = first_wins (map_of expansions) (map_of loaded)"
      using map_of_mergeExpansions[of expansions loaded] m by (intro ext) simp
    finally show ?thesis
      using True ld
      by (simp add: loaded_from_def first_wins_def map_add_def split: option.splits)
  qed
qed

lemma map_of_concat_skip:
  "\<forall>x \<in> set xs. map_of (f x) k = None \<Longrightarrow>
     map_of (concat (map f xs) @ ys) k = map_of ys k"
  by (induction xs) (simp_all add: map_add_def split: option.splits)

lemma private_getExpansionsFor_first_directory:
  assumes "private_getExpansionsFor h mime = Inr (result, log)"
      and "applicationDirectories h ''expand'' = before @ directory # after"
      and "\<forall>d \<in> set before. map_of (loaded_from h (mime_filename mime) d) k = None"
      and "map_of (loaded_from h (mime_filename mime) directory) k = Some v"
  shows "map_of result k = Some v"
proof -
  let ?f = "loaded_from h (mime_filename mime)"
  have "map_of result k = map_of ([] @ concat (map ?f (before @ directory # after))) k"
    using assms(1) unfolding private_getExpansionsFor_def assms(2)
    by (rule map_of_getExpansionsFor_directories)
  also have "\<dots> = map_of (concat (map ?f before) @ (?f directory @ concat (map ?f after))) k"
    by simp
  also have "\<dots> = map_of (?f directory @ concat (map ?f after)) k"
    by (rule map_of_concat_skip[OF assms(3)])
  also have "\<dots> = Some v" using assms(4) by simp
  finally show ?thesis .
qed

lemma getExpansionsFor_specific_first:
  assumes "private_getExpansionsFor h mime = Inr (specific, log1)"
      and "private_getExpansionsFor h ''all'' = Inr (wildcard, log2)"
  shows "\<exists>result log. getExpansionsFor h mime = Inr (result, log)
           \<and> map_of result k = first_wins (map_of specific) (map_of wildcard) k"
proof -
  obtain result log3 where m: "mergeExpansions specific wildcard = (result, log3)"
    by (cases "mergeExpansions specific wildcard")
  have "getExpansionsFor h mime
          = Inr (result, [CollectingExpansionsFor mime] @ log1 @ log2 @ log3
                           @ [GotExpansions (length result)])"
    by (simp add: getExpansionsFor_def assms m)
  moreover have "map_of result k = first_wins (map_of specific) (map_of wildcard) k"
    using map_of_mergeExpansions[of specific wildcard k] m by simp
  ultimately show ?thesis by blast
qed

text \<open>
  Two search directories, each with a file for every media type that defines a function
  \<open>date\<close>; the function returns the path of its file.
\<close>

definition date_function :: "string \<Rightarrow> expansion_function" where
  "date_function path =
     \<lparr>func_name = ''date'', call = (\<lambda>arguments namedArgs. Returns (Text path)),
      template = None, use_template_iface = None\<rparr>"

definition two_directories :: host where
  "two_directories =
     \<lparr>applicationDirectories = (\<lambda>name. [''/first/'' @ name, ''/second/'' @ name]),
      path_exists = (\<lambda>path. True),
      load_source = (\<lambda>name path. Inr [(''date'', Function (date_function path))]),
      findApplicationResource = (\<lambda>resource. None),
      render_template = (\<lambda>basedir filename data. RaisesTemplateError [])\<rparr>"

lemma two_directories_private:
  "private_getExpansionsFor two_directories ''text/x-c++src''
     = Inr ([(''date'', (date_function ''/first/expand/text_x-c++src.expand'',
                         ''/first/expand/text_x-c++src.expand''))],
            [LoadingExpansionsFrom ''/first/expand/text_x-c++src.expand'',
             AddingExpansion ''date'',
             LoadingExpansionsFrom ''/second/expand/text_x-c++src.expand'',
             AddingExpansion ''date'',
             IgnoreDuplicate ''date'' ''/second/expand/text_x-c++src.expand'',
             FirstDefinedHere ''/first/expand/text_x-c++src.expand''])"
  by (simp add: private_getExpansionsFor_def two_directories_def mime_filename_def
        os_path_join_def loadExpansionsFromFile_def loadExpansionsFromFile_step_def
        mergeExpansions_def mergeExpansions_step_def py_startswith_def date_function_def)

text \<open>
  C6. Merging keeps the first registration of every name. A lookup in the result of
  \<open>mergeExpansions left right\<close> gives the entry of \<open>left\<close> where \<open>left\<close> has the
  name and the entry of \<open>right\<close> otherwise, so that no entry of \<open>left\<close> is overwritten;
  an entry of \<open>right\<close> whose name \<open>left\<close> has is logged as an ignored duplicate,
  with the file of the entry that stays; merging is total, it raises nothing.
  \<open>getExpansionsFor\<close> merges the expansions of the media type before those of
  \<open>all\<close>, so that the entries of the media type win. Among the search directories the
  entry of the first directory in the order of the scan that defines the name wins.
\<close>

theorem first_registration_wins:
  "map_of (fst (mergeExpansions left right)) k = first_wins (map_of left) (map_of right) k
   \<and> (map_of left k = Some w \<longrightarrow> map_of (fst (mergeExpansions left right)) k = Some w)
   \<and> ((k, v) \<in> set right \<and> map_of left k = Some w \<longrightarrow>
         IgnoreDuplicate k (snd v) \<in> set (snd (mergeExpansions left right))
         \<and> FirstDefinedHere (snd w) \<in> set (snd (mergeExpansions left right)))
   \<and> (private_getExpansionsFor h mime = Inr (specific, log1)
        \<and> private_getExpansionsFor h ''all'' = Inr (wildcard, log2) \<longrightarrow>
         (\<exists>result log. getExpansionsFor h mime = Inr (result, log)
            \<and> map_of result k = first_wins (map_of specific) (map_of wildcard) k))
   \<and> (private_getExpansionsFor h mime = Inr (specific, log1)
        \<and> applicationDirectories h ''expand'' = before @ directory # after
        \<and> (\<forall>d \<in> set before. map_of (loaded_from h (mime_filename mime) d) k = None)
        \<and> map_of (loaded_from h (mime_filename mime) directory) k = Some u \<longrightarrow>
         map_of specific k = Some u)"
proof (intro conjI impI)
  show "map_of (fst (mergeExpansions left right)) k = first_wins (map_of left) (map_of right) k"
    by (rule map_of_mergeExpansions)
  show "map_of (fst (mergeExpansions left right)) k = Some w" if "map_of left k = Some w"
    using that by (simp add: map_of_mergeExpansions first_wins_def)
  show "IgnoreDuplicate k (snd v) \<in> set (snd (mergeExpansions left right))"
    and "FirstDefinedHere (snd w) \<in> set (snd (mergeExpansions left right))"
    if "(k, v) \<in> set right \<and> map_of left k = Some w"
    using that mergeExpansions_logs_loser[of k v right left w] by simp_all
  show "\<exists>result log. getExpansionsFor h mime = Inr (result, log)
            \<and> map_of result k = first_wins (map_of specific) (map_of wildcard) k"
    if "private_getExpansionsFor h mime = Inr (specific, log1)
        \<and> private_getExpansionsFor h ''all'' = Inr (wildcard, log2)"
    using that getExpansionsFor_specific_first by simp
  show "map_of specific k = Some u"
    if "private_getExpansionsFor h mime = Inr (specific, log1)
        \<and> applicationDirectories h ''expand'' = before @ directory # after
        \<and> (\<forall>d \<in> set before. map_of (loaded_from h (mime_filename mime) d) k = None)
        \<and> map_of (loaded_from h (mime_filename mime) directory) k = Some u"
    using that private_getExpansionsFor_first_directory[of h mime specific log1 before directory after k u]
    by simp
qed

theorem first_registration_wins_witness:
  "private_getExpansionsFor two_directories ''text/x-c++src''
     = Inr ([(''date'', (date_function ''/first/expand/text_x-c++src.expand'',
                         ''/first/expand/text_x-c++src.expand''))],
            [LoadingExpansionsFrom ''/first/expand/text_x-c++src.expand'',
             AddingExpansion ''date'',
             LoadingExpansionsFrom ''/second/expand/text_x-c++src.expand'',
             AddingExpansion ''date'',
             IgnoreDuplicate ''date'' ''/second/expand/text_x-c++src.expand'',
             FirstDefinedHere ''/first/expand/text_x-c++src.expand''])
   \<and> map_of (loaded_from two_directories (mime_filename ''text/x-c++src'') ''/second/expand'') ''date''
       = Some (date_function ''/second/expand/text_x-c++src.expand'',
               ''/second/expand/text_x-c++src.expand'')
   \<and> map_of [(''date'', (date_function ''/first/expand/text_x-c++src.expand'',
                         ''/first/expand/text_x-c++src.expand''))] ''date''
       = Some (date_function ''/first/expand/text_x-c++src.expand'',
               ''/first/expand/text_x-c++src.expand'')
   \<and> IgnoreDuplicate ''date'' ''/second/expand/text_x-c++src.expand''
       \<in> set (snd (mergeExpansions
              [(''date'', (date_function ''/first/expand/text_x-c++src.expand'',
                           ''/first/expand/text_x-c++src.expand''))]
              [(''date'', (date_function ''/second/expand/text_x-c++src.expand'',
                           ''/second/expand/text_x-c++src.expand''))]))"
proof -
  let ?p1 = "''/first/expand/text_x-c++src.expand''"
  let ?p2 = "''/second/expand/text_x-c++src.expand''"
  let ?result = "[(''date'', (date_function ?p1, ?p1))]"
  let ?log = "[LoadingExpansionsFrom ?p1, AddingExpansion ''date'',
               LoadingExpansionsFrom ?p2, AddingExpansion ''date'',
               IgnoreDuplicate ''date'' ?p2, FirstDefinedHere ?p1]"
  have a: "private_getExpansionsFor two_directories ''text/x-c++src'' = Inr (?result, ?log)"
    by (rule two_directories_private)
  have b: "applicationDirectories two_directories ''expand''
             = [] @ ''/first/expand'' # [''/second/expand'']"
    by (simp add: two_directories_def)
  have c: "\<forall>d \<in> set []. map_of (loaded_from two_directories (mime_filename ''text/x-c++src'') d)
              ''date'' = None"
    by simp
  have d: "map_of (loaded_from two_directories (mime_filename ''text/x-c++src'') ''/first/expand'')
              ''date'' = Some (date_function ?p1, ?p1)"
    by (simp add: loaded_from_def two_directories_def mime_filename_def
        os_path_join_def loadExpansionsFromFile_def loadExpansionsFromFile_step_def
        py_startswith_def date_function_def)
  have e: "map_of (loaded_from two_directories (mime_filename ''text/x-c++src'') ''/second/expand'')
              ''date'' = Some (date_function ?p2, ?p2)"
    by (simp add: loaded_from_def two_directories_def mime_filename_def
        os_path_join_def loadExpansionsFromFile_def loadExpansionsFromFile_step_def
        py_startswith_def date_function_def)
  note t = first_registration_wins[of ?result "[(''date'', (date_function ?p2, ?p2))]" "''date''"
      "(date_function ?p1, ?p1)" "(date_function ?p2, ?p2)" two_directories "''text/x-c++src''"
      ?result ?log _ _ "[]" "''/first/expand''" "[''/second/expand'']" "(date_function ?p1, ?p1)"]
  from t a b c d have f: "map_of ?result ''date'' = Some (date_function ?p1, ?p1)" by blast
  have "(''date'', (date_function ?p2, ?p2)) \<in> set [(''date'', (date_function ?p2, ?p2))]"
    by simp
  with t f have "IgnoreDuplicate ''date'' (snd (date_function ?p2, ?p2))
      \<in> set (snd (mergeExpansions ?result [(''date'', (date_function ?p2, ?p2))]))"
    by blast
  with a e f show ?thesis by simp
qed

section \<open>Properties of the pipeline\<close>


fun removes_then_insert :: "effect list \<Rightarrow> bool" where
  "removes_then_insert [InsertText c v, EndAtomicUndo] = True"
| "removes_then_insert [InsertTemplateText c v, EndAtomicUndo] = True"
| "removes_then_insert (RemoveText r # rest) = removes_then_insert rest"
| "removes_then_insert tr = False"

fun atomic_edit :: "effect list \<Rightarrow> bool" where
  "atomic_edit (BeginAtomicUndo # rest) = removes_then_insert rest"
| "atomic_edit tr = False"


definition reaches_call ::
  "host \<Rightarrow> editor \<Rightarrow> Range \<Rightarrow> Range option \<Rightarrow> expansion_function \<Rightarrow> call_result \<Rightarrow> bool" where
  "reaches_call h ed word_range argument_range func result \<longleftrightarrow>
     wordAndArgumentAtCursorRanges (document ed) (cursorPosition ed)
       = Inr (word_range, argument_range)
     \<and> (\<exists>expansions log path.
           getExpansionsFor h (mimeType ed) = Inr (expansions, log)
           \<and> map_of expansions (document_text (document ed) word_range) = Some (func, path))
     \<and> (\<exists>arguments namedArgs.
           (case argument_range of
              None \<Rightarrow> Inr ([], [])
            | Some r \<Rightarrow> parse_arguments (document_text (document ed) r))
             = Inr (arguments, namedArgs)
           \<and> call func arguments namedArgs = result)"







lemma removes_then_insert_no_popup:
  "removes_then_insert tr \<Longrightarrow> Popup title text icon \<notin> set tr"
  by (induction tr rule: removes_then_insert.induct) auto

lemma atomic_edit_no_popup: "atomic_edit tr \<Longrightarrow> Popup title text icon \<notin> set tr"
  by (cases tr rule: atomic_edit.cases) (auto dest: removes_then_insert_no_popup)




lemma expandAtCursor_reaches_call:
  assumes "reaches_call h ed word_range argument_range func result"
  shows "expandAtCursor h ed =
     (case result of
        RaisesException s \<Rightarrow> (Returned, [Popup ''Error'' (ExpandFailureText s) ''dialog-error''])
      | RaisesBaseException s \<Rightarrow> (Raised (BaseException s), [])
      | Returns replacement \<Rightarrow>
          finish_expansion h ed func word_range argument_range replacement)"
proof -
  from assms obtain expansions log path arguments namedArgs where
    loc: "wordAndArgumentAtCursorRanges (document ed) (cursorPosition ed)
            = Inr (word_range, argument_range)"
    and reg: "getExpansionsFor h (mimeType ed) = Inr (expansions, log)"
    and look: "map_of expansions (document_text (document ed) word_range) = Some (func, path)"
    and args: "(case argument_range of
                  None \<Rightarrow> Inr ([], [])
                | Some r \<Rightarrow> parse_arguments (document_text (document ed) r))
               = Inr (arguments, namedArgs)"
    and res: "call func arguments namedArgs = result"
    unfolding reaches_call_def by blast
  have "(if namedArgs \<noteq> [] then call func arguments namedArgs else call func arguments [])
          = result"
    using res by auto
  then show ?thesis
    by (simp add: expandAtCursor_def loc reg look args)
qed

lemma render_expansion_not_found:
  "findApplicationResource h (JINJA_TEMPLATES_BASE_DIR @ ''/'' @ tmpl) = None \<Longrightarrow>
     render_expansion h ed func tmpl word_range argument_range data
       = (Returned, [Popup ''Error'' (TemplateFileNotFoundText tmpl) ''dialog-error''])"
  by (simp add: render_expansion_def)


text \<open>
  A host with one expansion file, \<open>all.expand\<close>, that defines four functions:
  \<open>boom\<close> raises, \<open>today\<close> returns a text, \<open>hi\<close> declares the template
  \<open>hi.tmpl\<close> and returns a mapping, \<open>bad\<close> declares it and returns a text. The
  template engine renders the value of \<open>name\<close>.
\<close>

definition boom_function :: expansion_function where
  "boom_function =
     \<lparr>func_name = ''boom'', call = (\<lambda>arguments namedArgs. RaisesException ''ValueError: boom''),
      template = None, use_template_iface = None\<rparr>"

definition today_function :: expansion_function where
  "today_function =
     \<lparr>func_name = ''today'', call = (\<lambda>arguments namedArgs. Returns (Text ''2013-01-01'')),
      template = None, use_template_iface = None\<rparr>"

definition hi_function :: expansion_function where
  "hi_function =
     \<lparr>func_name = ''hi'', call = (\<lambda>arguments namedArgs. Returns (Mapping [(''name'', ''x'')])),
      template = Some ''hi.tmpl'', use_template_iface = None\<rparr>"

definition bad_function :: expansion_function where
  "bad_function =
     \<lparr>func_name = ''bad'', call = (\<lambda>arguments namedArgs. Returns (Text ''x'')),
      template = Some ''hi.tmpl'', use_template_iface = None\<rparr>"

definition example_host :: host where
  "example_host =
     \<lparr>applicationDirectories = (\<lambda>name. [''/share/'' @ name]),
      path_exists = (\<lambda>path. path = ''/share/expand/all.expand''),
      load_source = (\<lambda>name path.
         Inr [(''bad'', Function bad_function), (''boom'', Function boom_function),
              (''hi'', Function hi_function), (''today'', Function today_function)]),
      findApplicationResource = (\<lambda>resource.
         if resource = ''expand/templates/hi.tmpl''
         then Some ''/share/expand/templates/hi.tmpl'' else None),
      render_template = (\<lambda>basedir filename data.
         case map_of data ''name'' of
           Some v \<Rightarrow> Rendered v
         | None \<Rightarrow> RaisesTemplateError ''name is undefined'')\<rparr>"

definition example_editor :: "string \<Rightarrow> editor" where
  "example_editor text =
     \<lparr>document = [text], cursorPosition = \<lparr>line = 0, column = 0\<rparr>,
      mimeType = ''text/plain'', templateInterface2 = False\<rparr>"

definition example_expansions :: expansions where
  "example_expansions =
     [(''bad'', (bad_function, ''/share/expand/all.expand'')),
      (''boom'', (boom_function, ''/share/expand/all.expand'')),
      (''hi'', (hi_function, ''/share/expand/all.expand'')),
      (''today'', (today_function, ''/share/expand/all.expand''))]"

lemma example_registry:
  "\<exists>log. getExpansionsFor example_host ''text/plain'' = Inr (example_expansions, log)"
  by (simp add: getExpansionsFor_def private_getExpansionsFor_def example_host_def
        mime_filename_def os_path_join_def loadExpansionsFromFile_def
        loadExpansionsFromFile_step_def mergeExpansions_def mergeExpansions_step_def
        py_startswith_def example_expansions_def
        boom_function_def today_function_def hi_function_def bad_function_def)

lemma example_reaches_call:
  assumes loc: "wordAndArgumentAtCursorRanges [text] \<lparr>line = 0, column = 0\<rparr>
                  = Inr (word_range, None)"
      and word: "document_text [text] word_range = word"
      and look: "map_of example_expansions word = Some (func, path)"
  shows "reaches_call example_host (example_editor text) word_range None func (call func [] [])"
proof -
  obtain log where "getExpansionsFor example_host ''text/plain'' = Inr (example_expansions, log)"
    using example_registry by blast
  with loc word look show ?thesis
    unfolding reaches_call_def by (simp add: example_editor_def)
qed



text \<open>
  C10. When the function that is called declares a template and its call returns, the run
  is decided by the value: for a mapping it goes on with the lookup of the template file
  (and ends with the popup of the missing file where the lookup finds nothing); for any
  other value the assertion fails, the AssertionError leaves \<open>expandAtCursor\<close> with an
  empty trace, that is without a popup and before any change of the buffer.
\<close>

theorem template_result_assertion:
  "(reaches_call h ed word_range argument_range func (Returns replacement)
      \<and> template func = Some tmpl \<longrightarrow>
       expandAtCursor h ed
         = (case replacement of
              Mapping data \<Rightarrow> render_expansion h ed func tmpl word_range argument_range data
            | _ \<Rightarrow> (Raised AssertionError, [])))
   \<and> (findApplicationResource h (JINJA_TEMPLATES_BASE_DIR @ ''/'' @ tmpl) = None \<longrightarrow>
       render_expansion h ed func tmpl word_range argument_range data
         = (Returned, [Popup ''Error'' (TemplateFileNotFoundText tmpl) ''dialog-error'']))"
proof (intro conjI impI)
  assume a: "reaches_call h ed word_range argument_range func (Returns replacement)
      \<and> template func = Some tmpl"
  then have "expandAtCursor h ed
      = finish_expansion h ed func word_range argument_range replacement"
    using expandAtCursor_reaches_call[of h ed word_range argument_range func "Returns replacement"]
    by simp
  with a show "expandAtCursor h ed
         = (case replacement of
              Mapping data \<Rightarrow> render_expansion h ed func tmpl word_range argument_range data
            | _ \<Rightarrow> (Raised AssertionError, []))"
    by (simp add: finish_expansion_def)
next
  assume "findApplicationResource h (JINJA_TEMPLATES_BASE_DIR @ ''/'' @ tmpl) = None"
  then show "render_expansion h ed func tmpl word_range argument_range data
         = (Returned, [Popup ''Error'' (TemplateFileNotFoundText tmpl) ''dialog-error''])"
    by (rule render_expansion_not_found)
qed

theorem template_result_assertion_witness:
  "expandAtCursor example_host (example_editor ''bad'') = (Raised AssertionError, [])
   \<and> expandAtCursor example_host (example_editor ''hi'')
     = (Returned,
        [BeginAtomicUndo,
         RemoveText \<lparr>range_start = \<lparr>line = 0, column = 0\<rparr>, range_end = \<lparr>line = 0, column = 2\<rparr>\<rparr>,
         InsertText \<lparr>line = 0, column = 0\<rparr> (Text ''x''),
         EndAtomicUndo])"
proof -
  let ?bad = "\<lparr>range_start = \<lparr>line = 0, column = 0\<rparr>, range_end = \<lparr>line = 0, column = 3\<rparr>\<rparr>"
  let ?hi = "\<lparr>range_start = \<lparr>line = 0, column = 0\<rparr>, range_end = \<lparr>line = 0, column = 2\<rparr>\<rparr>"
  have l1: "wordAndArgumentAtCursorRanges [''bad''] \<lparr>line = 0, column = 0\<rparr> = Inr (?bad, None)"
    by code_simp
  have w1: "document_text [''bad''] ?bad = ''bad''" by code_simp
  have m1: "map_of example_expansions ''bad'' = Some (bad_function, ''/share/expand/all.expand'')"
    by (simp add: example_expansions_def)
  have r1: "reaches_call example_host (example_editor ''bad'') ?bad None bad_function
              (Returns (Text ''x''))"
    using example_reaches_call[OF l1 w1 m1] by (simp add: bad_function_def)
  have t1: "template bad_function = Some ''hi.tmpl''" by (simp add: bad_function_def)
  have l2: "wordAndArgumentAtCursorRanges [''hi''] \<lparr>line = 0, column = 0\<rparr> = Inr (?hi, None)"
    by code_simp
  have w2: "document_text [''hi''] ?hi = ''hi''" by code_simp
  have m2: "map_of example_expansions ''hi'' = Some (hi_function, ''/share/expand/all.expand'')"
    by (simp add: example_expansions_def)
  have r2: "reaches_call example_host (example_editor ''hi'') ?hi None hi_function
              (Returns (Mapping [(''name'', ''x'')]))"
    using example_reaches_call[OF l2 w2 m2] by (simp add: hi_function_def)
  have t2: "template hi_function = Some ''hi.tmpl''" by (simp add: hi_function_def)
  from template_result_assertion[of example_host "example_editor ''bad''" ?bad None bad_function
      "Text ''x''" "''hi.tmpl''"] r1 t1
  have a: "expandAtCursor example_host (example_editor ''bad'') = (Raised AssertionError, [])"
    by simp
  have f: "py_find ''/share/expand/templates/hi.tmpl'' JINJA_TEMPLATES_BASE_DIR = 7"
    by code_simp
  have res: "findApplicationResource example_host (JINJA_TEMPLATES_BASE_DIR @ ''/'' @ ''hi.tmpl'')
               = Some ''/share/expand/templates/hi.tmpl''"
    by (simp add: example_host_def JINJA_TEMPLATES_BASE_DIR_def os_path_join_def)
  have rend: "\<And>basedir relative.
      render_template example_host basedir relative [(''name'', ''x'')] = Rendered ''x''"
    by (simp add: example_host_def)
  from template_result_assertion[of example_host "example_editor ''hi''" ?hi None hi_function
      "Mapping [(''name'', ''x'')]" "''hi.tmpl''"] r2 t2
  have "expandAtCursor example_host (example_editor ''hi'')
     = render_expansion example_host (example_editor ''hi'') hi_function ''hi.tmpl'' ?hi None
         [(''name'', ''x'')]"
    by simp
  also have "\<dots> = (Returned, [BeginAtomicUndo, RemoveText ?hi,
                   InsertText \<lparr>line = 0, column = 0\<rparr> (Text ''x''), EndAtomicUndo])"
    unfolding render_expansion_def res
    by (simp add: f rend Let_def apply_expansion_def hi_function_def example_editor_def)
  finally show ?thesis using a by simp
qed

end
